theory Spec2Isabelle
  imports Main
begin

section \<open>Outcomes of C++ code\<close>

text \<open>
  The program is \<^verbatim>\<open>src/main.cpp\<close>. A C++ call either returns a value, throws an
  exception, runs into undefined behaviour (an unchecked \<^verbatim>\<open>operator[]\<close> beyond the end
  of a vector, \<^verbatim>\<open>pop_back\<close> on an empty string) or does not return at all. Library
  functions that can only throw have the type \<open>exn + 'a\<close>; the member functions of
  \<^verbatim>\<open>Database\<close> and \<^verbatim>\<open>main\<close> have the type \<open>'a result\<close>.
  Strings are \<^verbatim>\<open>std::string\<close>: lists of bytes. Sizes and positions are \<^verbatim>\<open>size_t\<close>;
  they are modelled as \<open>nat\<close>, \<^verbatim>\<open>npos\<close> as \<open>None\<close>.
\<close>

text \<open>
  The exceptions that can reach a handler, each with the text \<^verbatim>\<open>what()\<close> returns.
  The texts of the exceptions thrown by the library (\<^verbatim>\<open>substr\<close>, \<^verbatim>\<open>std::stoi\<close>,
  \<^verbatim>\<open>nlohmann::json\<close>) depend on the implementation, and the model fixes one for each.
\<close>

datatype exn =
    Out_of_range string
  | Invalid_argument string
  | Type_error string

fun what :: "exn \<Rightarrow> string" where
  "what (Out_of_range m) = m"
| "what (Invalid_argument m) = m"
| "what (Type_error m) = m"

datatype fault = Throw exn | Undefined | Diverge

type_synonym 'a result = "fault + 'a"

definition and_then :: "'a result \<Rightarrow> ('a \<Rightarrow> 'b result) \<Rightarrow> 'b result" where
  "and_then m f = (case m of Inl flt \<Rightarrow> Inl flt | Inr x \<Rightarrow> f x)"

text \<open>A call of a function that can only throw.\<close>

definition call :: "exn + 'a \<Rightarrow> 'a result" where
  "call r = (case r of Inl e \<Rightarrow> Inl (Throw e) | Inr x \<Rightarrow> Inr x)"

text \<open>A call of a function that can throw or fail to return (\<open>None\<close>).\<close>

definition call_partial :: "(exn + 'a) option \<Rightarrow> 'a result" where
  "call_partial r = (case r of None \<Rightarrow> Inl Diverge | Some r' \<Rightarrow> call r')"


section \<open>The members of \<^verbatim>\<open>std::string\<close> the program uses\<close>

text \<open>\<^verbatim>\<open>str.substr(pos, n)\<close> throws \<^verbatim>\<open>std::out_of_range\<close> when \<^verbatim>\<open>pos > size()\<close>.\<close>

definition substr :: "string \<Rightarrow> nat \<Rightarrow> nat \<Rightarrow> exn + string" where
  "substr str pos n =
     (if length str < pos then Inl (Out_of_range ''basic_string::substr'')
      else Inr (take n (drop pos str)))"

text \<open>\<^verbatim>\<open>str.substr(pos)\<close>: the count defaults to \<^verbatim>\<open>npos\<close>, the rest of the string.\<close>

definition substr_npos :: "string \<Rightarrow> nat \<Rightarrow> exn + string" where
  "substr_npos str pos =
     (if length str < pos then Inl (Out_of_range ''basic_string::substr'')
      else Inr (drop pos str))"

text \<open>
  \<^verbatim>\<open>str.find(s, pos)\<close>: the lowest position \<open>p \<ge> pos\<close> with \<open>p + s.size() \<le> size()\<close>
  at which \<open>s\<close> stands in \<open>str\<close>, \<^verbatim>\<open>npos\<close> when there is none.
\<close>

function str_find :: "string \<Rightarrow> string \<Rightarrow> nat \<Rightarrow> nat option" where
  "str_find str s pos =
     (if length str < pos + length s then None
      else if take (length s) (drop pos str) = s then Some pos
      else str_find str s (Suc pos))"
  by pat_completeness auto
termination
  by (relation "measure (\<lambda>(str, s, pos). Suc (length str) - pos)") auto

text \<open>\<^verbatim>\<open>str.find(c)\<close> for a character, searching from position 0.\<close>

primrec find_char_from :: "string \<Rightarrow> char \<Rightarrow> nat \<Rightarrow> nat option" where
  "find_char_from [] c pos = None"
| "find_char_from (x # xs) c pos = (if x = c then Some pos else find_char_from xs c (Suc pos))"

definition find_char :: "string \<Rightarrow> char \<Rightarrow> nat option" where
  "find_char str c = find_char_from str c 0"

text \<open>\<^verbatim>\<open>str.find_first_not_of(chars)\<close>: the first position holding a character not in \<open>chars\<close>.\<close>

primrec first_not_of :: "string \<Rightarrow> string \<Rightarrow> nat \<Rightarrow> nat option" where
  "first_not_of [] chars pos = None"
| "first_not_of (x # xs) chars pos =
     (if x \<in> set chars then first_not_of xs chars (Suc pos) else Some pos)"

definition find_first_not_of :: "string \<Rightarrow> string \<Rightarrow> nat option" where
  "find_first_not_of str chars = first_not_of str chars 0"

text \<open>
  \<^verbatim>\<open>str.find_last_not_of(chars)\<close>: the last position holding a character not in \<open>chars\<close>;
  the scan runs backwards from the end, \<open>n\<close> is the number of positions still to look at.
\<close>

primrec last_not_of :: "string \<Rightarrow> string \<Rightarrow> nat \<Rightarrow> nat option" where
  "last_not_of str chars 0 = None"
| "last_not_of str chars (Suc i) =
     (if str ! i \<in> set chars then last_not_of str chars i else Some i)"

definition find_last_not_of :: "string \<Rightarrow> string \<Rightarrow> nat option" where
  "find_last_not_of str chars = last_not_of str chars (length str)"


section \<open>\<^verbatim>\<open>splitString\<close> and \<^verbatim>\<open>trimString\<close> (lines 9 to 32)\<close>

text \<open>
  The \<^verbatim>\<open>while\<close> loop of \<^verbatim>\<open>splitString\<close>, with its variables \<open>start\<close> and \<open>tokens\<close>.
  Nothing bounds the number of iterations, so the loop is a partial function: \<open>None\<close>
  is a loop that never ends.
\<close>

partial_function (option) splitString_loop ::
  "string \<Rightarrow> string \<Rightarrow> nat \<Rightarrow> string list \<Rightarrow> (exn + string list) option" where
  "splitString_loop input separator start tokens =
     (case str_find input separator start of
        Some end' \<Rightarrow>
          (case substr input start (end' - start) of
             Inl e \<Rightarrow> Some (Inl e)
           | Inr token \<Rightarrow>
               splitString_loop input separator (end' + length separator) (tokens @ [token]))
      | None \<Rightarrow>
          (case substr_npos input start of
             Inl e \<Rightarrow> Some (Inl e)
           | Inr token \<Rightarrow> Some (Inr (tokens @ [token]))))"

declare splitString_loop.simps [code]

definition splitString :: "string \<Rightarrow> string \<Rightarrow> (exn + string list) option" where
  "splitString input separator = splitString_loop input separator 0 []"

text \<open>The literal \<^verbatim>\<open>" \t\n\r"\<close> of \<^verbatim>\<open>trimString\<close>.\<close>

definition whitespace :: string where
  "whitespace = [CHR '' '', CHR 0x09, CHR 0x0A, CHR 0x0D]"

definition trimString :: "string \<Rightarrow> exn + string" where
  "trimString str =
     (case find_first_not_of str whitespace of
        None \<Rightarrow> Inr []
      | Some start \<Rightarrow>
          (case find_last_not_of str whitespace of
             None \<Rightarrow> Inr []
           | Some end' \<Rightarrow> substr str start (end' - start + 1)))"

text \<open>
  The specification's \<open>join\<close>: the elements of a sequence written one after the other
  with the separator between neighbours. The program has no such function; the
  definition serves to state what \<^verbatim>\<open>splitString\<close> returns.
\<close>

fun join :: "string list \<Rightarrow> string \<Rightarrow> string" where
  "join [] sep = []"
| "join [x] sep = x"
| "join (x # y # ys) sep = x @ sep @ join (y # ys) sep"


section \<open>\<^verbatim>\<open>CommandRunner\<close> (lines 34 to 76)\<close>

text \<open>
  The external process is the environment of the program. For a command line, \<open>popen\<close>
  tells what \<^verbatim>\<open>_popen\<close> and the process do: the pipe cannot be opened (\<open>Failed\<close>); the
  stream never reaches its end, because the process never finishes (\<open>Hangs\<close>); or the
  process writes a sequence of bytes to its standard output and ends (\<open>Output\<close>).
\<close>

datatype pipe = Failed | Hangs | Output string

type_synonym env = "string \<Rightarrow> pipe"

text \<open>
  \<^verbatim>\<open>fgets(buffer, n + 1, stream)\<close>: at most \<open>n\<close> characters, up to and including the first
  newline; the result is the buffer and what is left of the stream.
\<close>

fun fgets :: "nat \<Rightarrow> string \<Rightarrow> string \<times> string" where
  "fgets 0 stream = ([], stream)"
| "fgets (Suc n) [] = ([], [])"
| "fgets (Suc n) (c # stream) =
     (if c = CHR 0x0A then ([c], stream)
      else (case fgets n stream of (buffer, rest) \<Rightarrow> (c # buffer, rest)))"

lemma fgets_shorter:
  "0 < n \<Longrightarrow> stream \<noteq> [] \<Longrightarrow> length (snd (fgets n stream)) < length stream"
proof (induction n stream rule: fgets.induct)
  case (1 stream)
  then show ?case by simp
next
  case (2 n)
  then show ?case by simp
next
  case (3 n c stream)
  show ?case
  proof (cases "c = CHR 0x0A \<or> n = 0 \<or> stream = []")
    case True
    then show ?thesis by (cases n; cases stream) auto
  next
    case False
    with 3 have "length (snd (fgets n stream)) < length stream" by simp
    with False show ?thesis by (simp add: case_prod_beta)
  qed
qed

text \<open>
  The loop of \<^verbatim>\<open>runCommand\<close> (lines 47 to 51) on the bytes the process writes: the
  buffer holds 128 characters, so each \<^verbatim>\<open>fgets\<close> takes at most 127, and
  \<^verbatim>\<open>result += buffer\<close> appends the buffer as a C string, that is up to its first
  zero byte.
\<close>

function read_pipe :: "string \<Rightarrow> string" where
  "read_pipe stream =
     (if stream = [] then []
      else (case fgets 127 stream of
              (buffer, rest) \<Rightarrow> takeWhile (\<lambda>c. c \<noteq> CHR 0x00) buffer @ read_pipe rest))"
  by pat_completeness auto
termination
proof (relation "measure length")
  show "wf (measure length)" by simp
next
  fix stream buffer rest :: string
  assume "stream \<noteq> []" and "(buffer, rest) = fgets 127 stream"
  then have "length rest < length stream"
    using fgets_shorter [of 127 stream] by (metis snd_conv zero_less_numeral)
  then show "(rest, stream) \<in> measure length" by simp
qed

text \<open>
  \<^verbatim>\<open>operator<<\<close> appends the value and a space to the buffer \<^verbatim>\<open>command_\<close>;
  \<^verbatim>\<open>execute\<close> removes the trailing space, empties the buffer and runs the command.
  Every use in \<^verbatim>\<open>Database\<close> fills the buffer and executes it at once, so each starts
  from the empty buffer.
\<close>

definition shl :: "string \<Rightarrow> string \<Rightarrow> string" where
  "shl command' v = command' @ v @ '' ''"

text \<open>
  When \<^verbatim>\<open>_popen\<close> returns the null pointer, \<^verbatim>\<open>pipe\<close> is a \<^verbatim>\<open>std::shared_ptr\<close> that owns
  the null pointer together with the deleter \<^verbatim>\<open>_pclose\<close>. The statement
  \<^verbatim>\<open>throw std::runtime_error("popen() failed!")\<close> leaves the function past the destructor
  of \<^verbatim>\<open>pipe\<close>, which calls \<^verbatim>\<open>_pclose\<close> on the null pointer: the behaviour is undefined,
  and the exception never reaches a handler.
\<close>

definition runCommand :: "env \<Rightarrow> string \<Rightarrow> string result" where
  "runCommand popen cmd =
     (case popen cmd of
        Failed \<Rightarrow> Inl Undefined
      | Hangs \<Rightarrow> Inl Diverge
      | Output stream \<Rightarrow> Inr (read_pipe stream))"

definition execute :: "env \<Rightarrow> string \<Rightarrow> string result" where
  "execute popen command' =
     (if command' = [] then Inl Undefined else runCommand popen (butlast command'))"


section \<open>\<^verbatim>\<open>Database\<close> (lines 78 to 152)\<close>

definition wrapString :: "string \<Rightarrow> string" where
  "wrapString str = [CHR 0x22] @ str @ [CHR 0x22]"

text \<open>The constructor: \<^verbatim>\<open>dbFile_ = wrapString(filePath)\<close>.\<close>

definition Database :: "string \<Rightarrow> string" where
  "Database filePath = wrapString filePath"

text \<open>The predicate of \<^verbatim>\<open>omitNullStrings\<close>: the loop over the characters with its \<^verbatim>\<open>break\<close>.\<close>

fun isNull :: "string \<Rightarrow> bool" where
  "isNull [] = True"
| "isNull (c # cs) =
     (if c \<noteq> CHR '' '' \<and> c \<noteq> CHR 0x09 \<and> c \<noteq> CHR 0x0A then False else isNull cs)"

text \<open>\<^verbatim>\<open>strings.erase(std::remove_if(...), strings.end())\<close> keeps the other elements in order.\<close>

definition omitNullStrings :: "string list \<Rightarrow> string list" where
  "omitNullStrings strings = filter (\<lambda>str. \<not> isNull str) strings"

text \<open>The loop \<^verbatim>\<open>for (auto& table : tables) table = trimString(table)\<close>.\<close>

fun trim_each :: "string list \<Rightarrow> string list result" where
  "trim_each [] = Inr []"
| "trim_each (table # tables) =
     and_then (call (trimString table)) (\<lambda>table'.
     and_then (trim_each tables) (\<lambda>tables'. Inr (table' # tables')))"

definition getTables :: "env \<Rightarrow> string \<Rightarrow> string list result" where
  "getTables popen dbFile' =
     and_then (execute popen (shl (shl (shl [] ''sqlite3'') dbFile') ''.tables'')) (\<lambda>out.
     and_then (call_partial (splitString out '' '')) (\<lambda>tables.
       trim_each (omitNullStrings tables)))"

text \<open>
  The loop of \<^verbatim>\<open>getTableColumns\<close>. \<^verbatim>\<open>parts[1]\<close> is the unchecked \<^verbatim>\<open>operator[]\<close> of
  \<^verbatim>\<open>std::vector\<close>: undefined behaviour unless \<open>1 < parts.size()\<close>.
\<close>

fun columns_loop :: "string list \<Rightarrow> string list \<Rightarrow> string list result" where
  "columns_loop [] columns = Inr columns"
| "columns_loop (line # lines) columns =
     and_then (call_partial (splitString line ''|'')) (\<lambda>parts.
       if 1 < length parts then columns_loop lines (columns @ [parts ! 1])
       else Inl Undefined)"

definition table_info_query :: "string \<Rightarrow> string" where
  "table_info_query table = wrapString (''PRAGMA table_info('' @ table @ '');'')"

definition getTableColumns :: "env \<Rightarrow> string \<Rightarrow> string \<Rightarrow> string list result" where
  "getTableColumns popen dbFile' table =
     and_then (execute popen (shl (shl (shl [] ''sqlite3'') dbFile') (table_info_query table)))
       (\<lambda>out.
     and_then (call_partial (splitString out [CHR 0x0A])) (\<lambda>lines.
       columns_loop (omitNullStrings lines) []))"

text \<open>The inner loop of \<^verbatim>\<open>getTableRecords\<close> that computes \<^verbatim>\<open>fieldAllEmpty\<close>.\<close>

fun fieldAllEmpty :: "string list \<Rightarrow> bool" where
  "fieldAllEmpty [] = True"
| "fieldAllEmpty (field # fields) = (if field \<noteq> [] then False else fieldAllEmpty fields)"

fun records_loop :: "string list \<Rightarrow> string list list \<Rightarrow> string list list result" where
  "records_loop [] records = Inr records"
| "records_loop (line # lines) records =
     and_then (call_partial (splitString line ''|'')) (\<lambda>record.
       if 0 < length record \<and> \<not> fieldAllEmpty record
       then records_loop lines (records @ [record])
       else records_loop lines records)"

definition select_query :: "string \<Rightarrow> string" where
  "select_query table = wrapString (''SELECT * FROM '' @ [CHR 0x27] @ table @ [CHR 0x27] @ '';'')"

definition getTableRecords :: "env \<Rightarrow> string \<Rightarrow> string \<Rightarrow> string list list result" where
  "getTableRecords popen dbFile' table =
     and_then (execute popen (shl (shl (shl [] ''sqlite3'') dbFile') (select_query table)))
       (\<lambda>out.
     and_then (call_partial (splitString out [CHR 0x0A])) (\<lambda>lines.
       records_loop lines []))"

section \<open>\<^verbatim>\<open>std::stoi\<close> and \<^verbatim>\<open>std::stod\<close>\<close>

text \<open>
  \<^verbatim>\<open>std::stoi(str)\<close> runs \<^verbatim>\<open>strtol\<close> in base 10 on the characters of \<open>str\<close>: it skips
  leading white space (\<^verbatim>\<open>isspace\<close> of the C locale), reads an optional sign and then
  the longest run of decimal digits, and stops at the first other character; the rest
  of the string is ignored (the call passes no \<^verbatim>\<open>idx\<close> pointer and never looks at how
  much was read). It throws \<^verbatim>\<open>std::invalid_argument\<close> when there is no digit to read, and
  \<^verbatim>\<open>std::out_of_range\<close> when the value is not a 32-bit \<^verbatim>\<open>int\<close>.
\<close>

definition isspace :: "char \<Rightarrow> bool" where
  "isspace c = (c \<in> set [CHR '' '', CHR 0x09, CHR 0x0A, CHR 0x0B, CHR 0x0C, CHR 0x0D])"

definition isdigit :: "char \<Rightarrow> bool" where
  "isdigit c = (c \<in> set ''0123456789'')"

fun digits_value :: "string \<Rightarrow> int \<Rightarrow> int" where
  "digits_value [] acc = acc"
| "digits_value (c # cs) acc = digits_value cs (10 * acc + (of_char c - 48))"

definition strtol_sign :: "string \<Rightarrow> bool \<times> string" where
  "strtol_sign str =
     (case str of
        [] \<Rightarrow> (False, [])
      | c # cs \<Rightarrow>
          if c = CHR ''-'' then (True, cs)
          else if c = CHR ''+'' then (False, cs)
          else (False, str))"

definition stoi :: "string \<Rightarrow> exn + int" where
  "stoi str =
     (case strtol_sign (dropWhile isspace str) of
        (negative, rest) \<Rightarrow>
          (let digits = takeWhile isdigit rest;
               v = (if negative then - digits_value digits 0 else digits_value digits 0)
           in if digits = [] then Inl (Invalid_argument ''stoi'')
              else if v < - 2147483648 \<or> 2147483647 < v then Inl (Out_of_range ''stoi'')
              else Inr v))"

text \<open>
  \<^verbatim>\<open>std::stod\<close> returns a \<^verbatim>\<open>double\<close>. Floating point is not modelled: the type of
  doubles is a type variable \<open>'r\<close>, and \<^verbatim>\<open>std::stod\<close> is a parameter
  \<open>stod :: string \<Rightarrow> exn + 'r\<close> of the functions that call it.
\<close>


section \<open>The JSON document (\<^verbatim>\<open>nlohmann::json\<close>, as \<^verbatim>\<open>serialize\<close> uses it)\<close>

text \<open>
  An object is a \<^verbatim>\<open>std::map\<close> from keys to values; it is modelled as an association
  list without repeated keys, read with \<open>map_of\<close>. The order of the keys in the list
  carries no meaning.
\<close>

datatype 'r json =
    Null
  | Number_integer int
  | Number_float 'r
  | String string
  | Array "'r json list"
  | Object "(string \<times> 'r json) list"

text \<open>
  \<^verbatim>\<open>j[key]\<close>: a null value becomes an empty object first; the key is inserted with the
  value null unless it is there already; any other kind of value throws
  \<^verbatim>\<open>type_error\<close>. The result is \<open>j\<close> after the call.
\<close>

fun subscript :: "'r json \<Rightarrow> string \<Rightarrow> 'r json result" where
  "subscript Null key = Inr (Object [(key, Null)])"
| "subscript (Object members) key =
     (case map_of members key of
        None \<Rightarrow> Inr (Object (members @ [(key, Null)]))
      | Some v \<Rightarrow> Inr (Object members))"
| "subscript j key = Inl (Throw (Type_error ''cannot use operator[] with a string argument''))"

text \<open>The value \<^verbatim>\<open>j[key]\<close> refers to, once \<open>subscript\<close> has run.\<close>

fun member :: "'r json \<Rightarrow> string \<Rightarrow> 'r json" where
  "member (Object members) key = (case map_of members key of None \<Rightarrow> Null | Some v \<Rightarrow> v)"
| "member j key = Null"

text \<open>
  What an object holds under a key: \<open>None\<close> when the key is absent (or the value is not
  an object), so that an absent key and a key with the value null are told apart.
\<close>

fun lookup :: "'r json \<Rightarrow> string \<Rightarrow> 'r json option" where
  "lookup (Object members) key = map_of members key"
| "lookup j key = None"

text \<open>Writing through the reference \<^verbatim>\<open>j[key]\<close>: the key keeps its place, the value changes.\<close>

fun store :: "'r json \<Rightarrow> string \<Rightarrow> 'r json \<Rightarrow> 'r json" where
  "store (Object members) key v =
     Object (map (\<lambda>(k, old). if k = key then (k, v) else (k, old)) members)"
| "store j key v = j"

text \<open>
  \<^verbatim>\<open>j.emplace_back()\<close>: a null value becomes an empty array first; a null element is
  appended and a reference to it returned; any value but null or an array throws
  \<^verbatim>\<open>type_error\<close>. The result is the list of the elements that were there before.
\<close>

fun emplace_back :: "'r json \<Rightarrow> 'r json list result" where
  "emplace_back Null = Inr []"
| "emplace_back (Array elements) = Inr elements"
| "emplace_back j = Inl (Throw (Type_error ''cannot use emplace_back()''))"


section \<open>\<^verbatim>\<open>Database::serialize\<close> (lines 154 to 195)\<close>

text \<open>
  Lines 175 to 187, the value stored for a non-empty field: the two nested
  \<^verbatim>\<open>try\<close> blocks, each \<^verbatim>\<open>catch (...)\<close> taking whatever the block threw.
\<close>

definition field_value :: "(string \<Rightarrow> exn + 'r) \<Rightarrow> string \<Rightarrow> 'r json" where
  "field_value stod field =
     (case stoi field of
        Inr integer \<Rightarrow> Number_integer integer
      | Inl e \<Rightarrow>
          (case stod field of
             Inr real \<Rightarrow> Number_float real
           | Inl e' \<Rightarrow> String field))"

text \<open>Lines 171 to 188, the body of the loop over the fields, for one field and its column.\<close>

definition set_field ::
  "(string \<Rightarrow> exn + 'r) \<Rightarrow> 'r json \<Rightarrow> string \<Rightarrow> string \<Rightarrow> 'r json result" where
  "set_field stod recordJson column field =
     (if field = [] then subscript recordJson column
      else and_then (subscript recordJson column) (\<lambda>recordJson'.
             Inr (store recordJson' column (field_value stod field))))"

text \<open>
  The loop \<^verbatim>\<open>for (int i = 0; i < record.size(); ++i)\<close>. \<^verbatim>\<open>columns[i]\<close> is the unchecked
  \<^verbatim>\<open>operator[]\<close>: undefined behaviour unless \<open>i < columns.size()\<close>.
\<close>

function fields_loop ::
  "(string \<Rightarrow> exn + 'r) \<Rightarrow> string list \<Rightarrow> string list \<Rightarrow> nat \<Rightarrow> 'r json \<Rightarrow> 'r json result"
  where
  "fields_loop stod columns record i recordJson =
     (if i < length record then
        (let field = record ! i in
         if i < length columns then
           (let column = columns ! i in
            and_then (set_field stod recordJson column field) (\<lambda>recordJson'.
              fields_loop stod columns record (Suc i) recordJson'))
         else Inl Undefined)
      else Inr recordJson)"
  by pat_completeness auto
termination
  by (relation "measure (\<lambda>(stod, columns, record, i, recordJson). length record - i)") auto

text \<open>
  The loop over the records of one table: \<^verbatim>\<open>tableJson.emplace_back()\<close> appends a null
  element, the loop over the fields fills it.
\<close>

fun records_json ::
  "(string \<Rightarrow> exn + 'r) \<Rightarrow> string list \<Rightarrow> string list list \<Rightarrow> 'r json \<Rightarrow> 'r json result"
  where
  "records_json stod columns [] tableJson = Inr tableJson"
| "records_json stod columns (record # records) tableJson =
     and_then (emplace_back tableJson) (\<lambda>elements.
     and_then (fields_loop stod columns record 0 Null) (\<lambda>recordJson.
       records_json stod columns records (Array (elements @ [recordJson]))))"

text \<open>The loop over the tables; \<open>tableJson\<close> is the reference \<^verbatim>\<open>json[table]\<close>.\<close>

fun tables_json ::
  "env \<Rightarrow> (string \<Rightarrow> exn + 'r) \<Rightarrow> string \<Rightarrow> string list \<Rightarrow> 'r json \<Rightarrow> 'r json result"
  where
  "tables_json popen stod dbFile' [] json = Inr json"
| "tables_json popen stod dbFile' (table # tables) json =
     and_then (subscript json table) (\<lambda>json'.
     and_then (getTableColumns popen dbFile' table) (\<lambda>columns.
     and_then (getTableRecords popen dbFile' table) (\<lambda>records.
     and_then (records_json stod columns records (member json' table)) (\<lambda>tableJson.
       tables_json popen stod dbFile' tables (store json' table tableJson)))))"

text \<open>
  Lines 155 to 191 of \<^verbatim>\<open>serialize\<close>: the document \<^verbatim>\<open>json\<close> as it stands when the loop
  over the tables has ended.
\<close>

definition document :: "env \<Rightarrow> (string \<Rightarrow> exn + 'r) \<Rightarrow> string \<Rightarrow> 'r json result" where
  "document popen stod dbFile' =
     and_then (getTables popen dbFile') (\<lambda>tables.
       tables_json popen stod dbFile' tables Null)"

text \<open>
  The files of the file system, by path, with their contents, and the lines written to
  \<^verbatim>\<open>std::cerr\<close>.
\<close>

record world =
  files :: "string \<rightharpoonup> string"
  cerr :: "string list"

text \<open>
  Lines 193 and 194. \<^verbatim>\<open>json.hpp\<close> is not part of the sources: the text
  \<^verbatim>\<open>json.dump(4)\<close> of a document, or the exception it throws, is the parameter \<open>dump\<close>.
  Whether the output file can be opened for writing is the parameter \<open>can_open\<close>.
  \<^verbatim>\<open>std::ofstream file(outputPath)\<close> comes first: it creates the file, or empties the
  one that is there; when it cannot open the file the stream is in a failed state,
  which the code does not look at, and nothing is written. \<^verbatim>\<open>json.dump(4)\<close> is called
  in either case. The result is the outcome of the call and the world it leaves (as
  it was, when the outcome is not defined).
\<close>

definition serialize ::
  "env \<Rightarrow> (string \<Rightarrow> exn + 'r) \<Rightarrow> ('r json \<Rightarrow> exn + string) \<Rightarrow> (string \<Rightarrow> bool)
     \<Rightarrow> string \<Rightarrow> string \<Rightarrow> world \<Rightarrow> unit result \<times> world" where
  "serialize popen stod dump can_open dbFile' outputPath w =
     (case document popen stod dbFile' of
        Inl flt \<Rightarrow> (Inl flt, w)
      | Inr json \<Rightarrow>
          (let w' = (if can_open outputPath then w\<lparr>files := (files w)(outputPath \<mapsto> [])\<rparr>
                     else w)
           in case dump json of
                Inl e \<Rightarrow> (Inl (Throw e), w')
              | Inr text \<Rightarrow>
                  (Inr (), if can_open outputPath
                           then w'\<lparr>files := (files w')(outputPath \<mapsto> text)\<rparr>
                           else w')))"


section \<open>\<^verbatim>\<open>main\<close> (lines 198 to 227)\<close>

text \<open>Lines 209 to 216: the path of the output file.\<close>

definition jsonPath :: "string \<Rightarrow> exn + string" where
  "jsonPath dbFile =
     (case find_char dbFile (CHR ''.'') of
        Some dotPos \<Rightarrow>
          (case substr dbFile 0 dotPos of
             Inl e \<Rightarrow> Inl e
           | Inr stem \<Rightarrow> Inr (stem @ ''.json''))
      | None \<Rightarrow> Inr (dbFile @ ''.json''))"

text \<open>
  \<open>argv\<close> holds \<^verbatim>\<open>argv[0]\<close> to \<^verbatim>\<open>argv[argc - 1]\<close>, so \<^verbatim>\<open>argc\<close> is its length and the
  program's arguments are \<open>tl argv\<close>. The result is the value \<^verbatim>\<open>main\<close> returns and the
  world it leaves. Only the call of \<^verbatim>\<open>serialize\<close> stands in the \<^verbatim>\<open>try\<close> block, and the
  handler takes \<^verbatim>\<open>std::exception\<close>, the base of every exception of the model.
\<close>

definition main ::
  "env \<Rightarrow> (string \<Rightarrow> exn + 'r) \<Rightarrow> ('r json \<Rightarrow> exn + string) \<Rightarrow> (string \<Rightarrow> bool)
     \<Rightarrow> string list \<Rightarrow> world \<Rightarrow> (int \<times> world) result" where
  "main popen stod dump can_open argv w =
     (if length argv = 1 then
        Inr (- 1, w\<lparr>cerr := cerr w @ [''Provide a database file to dump'']\<rparr>)
      else if length argv \<noteq> 2 then
        Inr (- 1, w\<lparr>cerr := cerr w @
               [''Invalid utilisation : dump-db-to-json.exe path-to-db-file.db'']\<rparr>)
      else
        (let dbFile = argv ! 1 in
         and_then (call (jsonPath dbFile)) (\<lambda>jsonPath'.
           case serialize popen stod dump can_open (Database dbFile) jsonPath' w of
             (Inr u, w') \<Rightarrow> Inr (0, w')
           | (Inl (Throw e), w') \<Rightarrow> Inr (0, w'\<lparr>cerr := cerr w' @ [what e]\<rparr>)
           | (Inl Undefined, w') \<Rightarrow> Inl Undefined
           | (Inl Diverge, w') \<Rightarrow> Inl Diverge)))"


section \<open>Basic facts\<close>

text \<open>The equation of the loop over the fields is unfolded by hand, one iteration at a time.\<close>

declare fields_loop.simps [simp del]

lemma and_then_Inr [simp]: "and_then (Inr x) f = f x"
  by (simp add: and_then_def)

lemma and_then_Inl [simp]: "and_then (Inl flt) f = Inl flt"
  by (simp add: and_then_def)


section \<open>\<^verbatim>\<open>splitString\<close>: what it returns, and when\<close>

lemma str_find_Some:
  "str_find str s pos = Some p \<Longrightarrow>
     pos \<le> p \<and> p + length s \<le> length str \<and> take (length s) (drop p str) = s"
proof (induction str s pos rule: str_find.induct)
  case (1 str s pos)
  show ?case
  proof (cases "length str < pos + length s")
    case True
    with "1.prems" show ?thesis by simp
  next
    case False
    note inr = this
    show ?thesis
    proof (cases "take (length s) (drop pos str) = s")
      case True
      with inr "1.prems" show ?thesis by auto
    next
      case False
      with inr "1.prems" have "str_find str s (Suc pos) = Some p" by simp
      with "1.IH" inr False show ?thesis by fastforce
    qed
  qed
qed

lemma str_find_decompose:
  assumes "str_find str s pos = Some p"
  shows "drop pos str = take (p - pos) (drop pos str) @ s @ drop (p + length s) str"
proof -
  from str_find_Some [OF assms]
  have le: "pos \<le> p" and m: "take (length s) (drop p str) = s" by simp_all
  have "drop pos str = take (p - pos) (drop pos str) @ drop (p - pos) (drop pos str)"
    by (rule append_take_drop_id [symmetric])
  also have "drop (p - pos) (drop pos str) = drop p str"
    using le by simp
  also have "drop p str = take (length s) (drop p str) @ drop (length s) (drop p str)"
    by (rule append_take_drop_id [symmetric])
  also have "take (length s) (drop p str) = s" by (rule m)
  also have "drop (length s) (drop p str) = drop (p + length s) str"
    by (simp add: add.commute)
  finally show ?thesis .
qed

lemma join_snoc: "ys \<noteq> [] \<Longrightarrow> join (x # ys) sep = x @ sep @ join ys sep"
  by (cases ys) simp_all

lemma splitString_loop_returns:
  assumes "separator \<noteq> []"
  shows "start \<le> length input \<Longrightarrow>
    \<exists>ys. splitString_loop input separator start tokens = Some (Inr (tokens @ ys))
       \<and> ys \<noteq> [] \<and> join ys separator = drop start input"
proof (induction "length input - start" arbitrary: start tokens rule: less_induct)
  case less
  show ?case
  proof (cases "str_find input separator start")
    case None
    with less.prems show ?thesis
      by (subst splitString_loop.simps) (simp add: substr_npos_def)
  next
    case (Some p)
    from str_find_Some [OF Some]
    have le: "start \<le> p" and fit: "p + length separator \<le> length input" by simp_all
    let ?tok = "take (p - start) (drop start input)"
    let ?start = "p + length separator"
    have "length input - ?start < length input - start"
      using le fit assms by (cases separator) auto
    from less.hyps [OF this fit, of "tokens @ [?tok]"]
    obtain ys where
      r: "splitString_loop input separator ?start (tokens @ [?tok]) = Some (Inr ((tokens @ [?tok]) @ ys))"
      and ne: "ys \<noteq> []" and j: "join ys separator = drop ?start input"
      by blast
    have "splitString_loop input separator start tokens = Some (Inr (tokens @ ?tok # ys))"
      using Some less.prems r by (subst splitString_loop.simps) (simp add: substr_def)
    moreover have "join (?tok # ys) separator = drop start input"
      using str_find_decompose [OF Some] j ne by (simp add: join_snoc)
    ultimately show ?thesis by blast
  qed
qed

lemma splitString_loop_empty_separator:
  assumes "splitString_loop input separator start tokens = Some r"
  shows "separator \<noteq> [] \<or> length input < start"
proof (rule splitString_loop.raw_induct
    [where P = "\<lambda>input separator start tokens r. separator \<noteq> [] \<or> length input < start",
     OF _ assms])
  fix rec :: "string \<Rightarrow> string \<Rightarrow> nat \<Rightarrow> string list \<Rightarrow> (exn + string list) option"
  fix input separator :: string and start :: nat and tokens :: "string list"
    and r :: "exn + string list"
  assume IH: "\<And>input separator start tokens r.
    rec input separator start tokens = Some r \<Longrightarrow> separator \<noteq> [] \<or> length input < start"
  assume eq: "(case str_find input separator start of
      None \<Rightarrow>
        (case substr_npos input start of Inl e \<Rightarrow> Some (Inl e)
         | Inr token \<Rightarrow> Some (Inr (tokens @ [token])))
    | Some end' \<Rightarrow>
        (case substr input start (end' - start) of Inl e \<Rightarrow> Some (Inl e)
         | Inr token \<Rightarrow> rec input separator (end' + length separator) (tokens @ [token])))
    = Some r"
  show "separator \<noteq> [] \<or> length input < start"
  proof (rule ccontr)
    assume "\<not> (separator \<noteq> [] \<or> length input < start)"
    then have e: "separator = []" and le: "start \<le> length input" by simp_all
    then have "str_find input separator start = Some start" by simp
    with eq e le have "rec input [] start (tokens @ [[]]) = Some r"
      by (simp add: substr_def)
    from IH [OF this] le show False by simp
  qed
qed

lemma splitString_returns:
  assumes "separator \<noteq> []"
  shows "\<exists>tokens. splitString input separator = Some (Inr tokens)
           \<and> tokens \<noteq> [] \<and> join tokens separator = input"
  using splitString_loop_returns [OF assms, of 0 input "[]"]
  by (simp add: splitString_def)

lemma splitString_no_occurrence:
  assumes "\<forall>pre suf. input \<noteq> pre @ separator @ suf"
  shows "splitString input separator = Some (Inr [input])"
proof (cases "str_find input separator 0")
  case None
  then show ?thesis
    unfolding splitString_def
    by (subst splitString_loop.simps) (simp add: substr_npos_def)
next
  case (Some p)
  from str_find_decompose [OF Some] assms show ?thesis by force
qed

text \<open>
  C3. For every text \<open>t\<close> and every non-empty separator \<open>s\<close>, \<^verbatim>\<open>splitString(t, s)\<close> returns
  a sequence with at least one element; joining its elements with \<open>s\<close> gives \<open>t\<close> again;
  and when \<open>s\<close> occurs nowhere in \<open>t\<close> the sequence is the whole input alone.
\<close>

theorem splitString_join:
  assumes "s \<noteq> []"
  shows "\<exists>tokens. splitString t s = Some (Inr tokens)
           \<and> join tokens s = t
           \<and> 1 \<le> length tokens
           \<and> ((\<forall>pre suf. t \<noteq> pre @ s @ suf) \<longrightarrow> tokens = [t])"
proof -
  from splitString_returns [OF assms, of t] obtain tokens where
    r: "splitString t s = Some (Inr tokens)" and ne: "tokens \<noteq> []" and j: "join tokens s = t"
    by blast
  have "1 \<le> length tokens" using ne by (cases tokens) simp_all
  moreover have "(\<forall>pre suf. t \<noteq> pre @ s @ suf) \<longrightarrow> tokens = [t]"
    using splitString_no_occurrence [of t s] r by auto
  ultimately show ?thesis using r j by blast
qed

theorem splitString_join_witness:
  "''|'' \<noteq> ([] :: string)
   \<and> splitString ''1|Bob||x'' ''|'' = Some (Inr [''1'', ''Bob'', '''', ''x''])
   \<and> join [''1'', ''Bob'', '''', ''x''] ''|'' = ''1|Bob||x''
   \<and> splitString ''abc'' ''|'' = Some (Inr [''abc''])"
  using splitString_join [of "''|''" "''1|Bob||x''"] splitString_join [of "''|''" "''abc''"]
  by (simp add: splitString_def splitString_loop.simps substr_def substr_npos_def)

text \<open>
  C10. \<^verbatim>\<open>splitString\<close> returns for every input text when the separator is not empty,
  and for the empty separator it returns for no input: the loop runs forever.
\<close>

theorem splitString_terminates_iff:
  "(\<exists>r. splitString input separator = Some r) \<longleftrightarrow> separator \<noteq> []"
proof
  assume "\<exists>r. splitString input separator = Some r"
  then obtain r where "splitString_loop input separator 0 [] = Some r"
    by (auto simp: splitString_def)
  from splitString_loop_empty_separator [OF this] show "separator \<noteq> []" by simp
next
  assume "separator \<noteq> []"
  from splitString_returns [OF this, of input] show "\<exists>r. splitString input separator = Some r"
    by blast
qed

theorem splitString_terminates_iff_witness:
  "splitString ''a b'' '' '' = Some (Inr [''a'', ''b'']) \<and> splitString ''a b'' [] = None"
proof -
  have "splitString ''a b'' '' '' = Some (Inr [''a'', ''b''])"
    by (simp add: splitString_def splitString_loop.simps substr_def substr_npos_def)
  moreover have "splitString ''a b'' [] = None"
    using splitString_terminates_iff [of "''a b''" "[]"] by simp
  ultimately show ?thesis by simp
qed


section \<open>\<^verbatim>\<open>trimString\<close>\<close>

lemma first_not_of_eq:
  "first_not_of xs chars pos =
     (if list_all (\<lambda>c. c \<in> set chars) xs then None
      else Some (pos + length (takeWhile (\<lambda>c. c \<in> set chars) xs)))"
  by (induction xs arbitrary: pos) simp_all

lemma last_not_of_eq:
  "n \<le> length str \<Longrightarrow>
   last_not_of str chars n =
     (if list_all (\<lambda>c. c \<in> set chars) (take n str) then None
      else Some (n - 1 - length (takeWhile (\<lambda>c. c \<in> set chars) (rev (take n str)))))"
proof (induction n)
  case 0
  then show ?case by simp
next
  case (Suc n)
  then have t: "take (Suc n) str = take n str @ [str ! n]"
    by (simp add: take_Suc_conv_app_nth)
  from Suc show ?case
    by (simp add: t)
qed

lemma dropWhile_all: "list_all P xs \<Longrightarrow> dropWhile P xs = []"
  by (induction xs) simp_all

lemma length_takeWhile_lt: "\<not> list_all P xs \<Longrightarrow> length (takeWhile P xs) < length xs"
  by (induction xs) simp_all

lemma trim_take_eq:
  fixes P :: "'a \<Rightarrow> bool"
  assumes "\<not> list_all P str"
  shows "take (length str - 1 - length (takeWhile P (rev str)) - length (takeWhile P str) + 1)
           (drop (length (takeWhile P str)) str)
         = rev (dropWhile P (rev (dropWhile P str)))"
proof -
  let ?X = "dropWhile P str"
  let ?a = "length (takeWhile P str)"
  let ?k = "length (takeWhile P (rev ?X))"
  from assms obtain x where x: "x \<in> set ?X" "\<not> P x"
    by (metis dropWhile_eq_Nil_conv hd_dropWhile hd_in_set list_all_iff)
  have split: "str = takeWhile P str @ ?X" by simp
  have "rev str = rev ?X @ rev (takeWhile P str)"
    by (metis rev_append split)
  then have tw: "takeWhile P (rev str) = takeWhile P (rev ?X)"
    using x by (metis set_rev takeWhile_append1)
  have klt: "?k < length ?X"
    using x length_takeWhile_lt [of P "rev ?X"] by (auto simp: list_all_iff)
  have lenX: "length ?X = length str - ?a"
    by (metis add_diff_cancel_left' length_append split)
  have dropX: "drop ?a str = ?X"
    by (simp add: dropWhile_eq_drop)
  have "rev (dropWhile P (rev ?X)) = rev (drop ?k (rev ?X))"
    by (simp add: dropWhile_eq_drop)
  also have "\<dots> = take (length ?X - ?k) ?X"
    by (simp add: rev_drop)
  finally have r: "rev (dropWhile P (rev ?X)) = take (length ?X - ?k) ?X" .
  have "length str - 1 - ?k - ?a + 1 = length ?X - ?k"
    using klt lenX by simp
  then show ?thesis
    unfolding tw dropX r by simp
qed

lemma trimString_eq:
  "trimString str =
     Inr (rev (dropWhile (\<lambda>c. c \<in> set whitespace) (rev (dropWhile (\<lambda>c. c \<in> set whitespace) str))))"
proof (cases "list_all (\<lambda>c. c \<in> set whitespace) str")
  case True
  then have "dropWhile (\<lambda>c. c \<in> set whitespace) str = []"
    by (rule dropWhile_all)
  with True show ?thesis
    by (auto simp: trimString_def find_first_not_of_def first_not_of_eq dest: set_dropWhileD)
next
  case False
  then show ?thesis
    using trim_take_eq [OF False] length_takeWhile_le [of "\<lambda>c. c \<in> set whitespace" str]
    by (simp add: trimString_def find_first_not_of_def first_not_of_eq
        find_last_not_of_def last_not_of_eq substr_def)
qed

lemma dropWhile_fixed: "xs = [] \<or> \<not> P (hd xs) \<Longrightarrow> dropWhile P xs = xs"
  by (cases xs) auto

lemma trimmed_ends:
  fixes P :: "'a \<Rightarrow> bool"
  defines "T \<equiv> \<lambda>x. rev (dropWhile P (rev (dropWhile P x)))"
  shows "T (T x) = T x"
proof -
  let ?X = "dropWhile P x"
  let ?Y = "dropWhile P (rev ?X)"
  have Y: "?Y = [] \<or> \<not> P (hd ?Y)" by (metis hd_dropWhile)
  have X: "?X = [] \<or> \<not> P (hd ?X)" by (metis hd_dropWhile)
  have h: "rev ?Y = [] \<or> \<not> P (hd (rev ?Y))"
  proof (cases "?Y = []")
    case True
    then show ?thesis by simp
  next
    case False
    have "?X \<noteq> []"
    proof
      assume "?X = []"
      then have "?Y = []" by (auto dest: set_dropWhileD)
      with False show False by simp
    qed
    have "?Y = drop (length (takeWhile P (rev ?X))) (rev ?X)"
      by (rule dropWhile_eq_drop)
    then have "rev ?Y = rev (drop (length (takeWhile P (rev ?X))) (rev ?X))"
      by (rule arg_cong)
    then have "rev ?Y = take (length ?X - length (takeWhile P (rev ?X))) ?X"
      by (simp only: rev_drop rev_rev_ident length_rev)
    moreover have "rev ?Y \<noteq> []" using False by simp
    ultimately have "hd (rev ?Y) = hd ?X"
      by (metis hd_take take_eq_Nil2 take_Nil bot_nat_0.not_eq_extremum)
    moreover from X \<open>?X \<noteq> []\<close> have "\<not> P (hd ?X)" by blast
    ultimately show ?thesis by (simp only: not_False_eq_True simp_thms)
  qed
  have "dropWhile P (rev ?Y) = rev ?Y"
    using h by (rule dropWhile_fixed [of "rev ?Y" P])
  moreover have "dropWhile P ?Y = ?Y"
    using Y by (rule dropWhile_fixed [of ?Y P])
  ultimately show ?thesis by (simp add: T_def)
qed

lemma trimmed_decompose:
  fixes P :: "'a \<Rightarrow> bool" and x :: "'a list"
  defines "y \<equiv> rev (dropWhile P (rev (dropWhile P x)))"
  shows "\<exists>pre suf. x = pre @ y @ suf \<and> list_all P pre \<and> list_all P suf"
    and "y = [] \<or> (\<not> P (hd y) \<and> \<not> P (last y))"
proof -
  let ?X = "dropWhile P x"
  let ?Y = "dropWhile P (rev ?X)"
  let ?suf = "rev (takeWhile P (rev ?X))"
  have "rev ?X = takeWhile P (rev ?X) @ ?Y" by simp
  then have "rev (rev ?X) = rev (takeWhile P (rev ?X) @ ?Y)" by (rule arg_cong)
  then have X: "?X = y @ ?suf" by (simp only: rev_rev_ident rev_append y_def)
  have "x = takeWhile P x @ ?X" by simp
  with X have "x = takeWhile P x @ y @ ?suf" by simp
  moreover have "list_all P (takeWhile P x)"
    by (auto simp: list_all_iff dest: set_takeWhileD)
  moreover have "list_all P ?suf"
    by (auto simp: list_all_iff dest: set_takeWhileD)
  ultimately show "\<exists>pre suf. x = pre @ y @ suf \<and> list_all P pre \<and> list_all P suf"
    by blast
  show "y = [] \<or> (\<not> P (hd y) \<and> \<not> P (last y))"
  proof (cases "y = []")
    case True
    then show ?thesis by simp
  next
    case False
    then have Yne: "?Y \<noteq> []" by (simp add: y_def)
    then have "\<not> P (hd ?Y)" by (metis hd_dropWhile)
    moreover have "last y = hd ?Y" using Yne by (simp add: y_def last_rev)
    moreover have Xne: "?X \<noteq> []"
    proof
      assume e: "?X = []"
      have "length y \<le> length ?X" using X by (metis length_append le_add1)
      with e have "length y \<le> 0" by (simp only: list.size(3))
      with False show False by simp
    qed
    then have "\<not> P (hd ?X)" by (metis hd_dropWhile)
    moreover have "hd ?X = hd y" using X False by (metis hd_append2)
    ultimately show ?thesis by simp
  qed
qed

lemma trimmed_Nil:
  "rev (dropWhile P (rev (dropWhile P x))) = [] \<longleftrightarrow> list_all P x"
proof
  assume "list_all P x"
  then have "dropWhile P x = []" by (rule dropWhile_all)
  then show "rev (dropWhile P (rev (dropWhile P x))) = []" by (simp only: rev.simps dropWhile.simps)
next
  assume a: "rev (dropWhile P (rev (dropWhile P x))) = []"
  show "list_all P x"
  proof (rule ccontr)
    assume n: "\<not> list_all P x"
    have ne: "dropWhile P x \<noteq> []"
    proof
      assume "dropWhile P x = []"
      then have "\<forall>a\<in>set x. P a" by (simp only: dropWhile_eq_Nil_conv)
      with n show False by (simp add: list_all_iff)
    qed
    then have h: "\<not> P (hd (dropWhile P x))" by (metis hd_dropWhile)
    from a have "dropWhile P (rev (dropWhile P x)) = []" by (simp only: rev_is_Nil_conv)
    then have "\<forall>a\<in>set (rev (dropWhile P x)). P a" by (simp only: dropWhile_eq_Nil_conv)
    then have "P (hd (dropWhile P x))" using ne by (simp only: set_rev) (metis hd_in_set)
    with h show False by simp
  qed
qed

text \<open>
  C9. \<^verbatim>\<open>trimString\<close> always returns; what it returns is a fixed point of \<^verbatim>\<open>trimString\<close>;
  it is the input without a prefix and a suffix that consist of characters of
  \<^verbatim>\<open>" \t\n\r"\<close> only, and it neither starts nor ends with such a character, so the prefix
  and the suffix are all the leading and trailing white space; it is empty exactly
  when the input is empty or white space only. \<^verbatim>\<open>trimString("")\<close> is \<^verbatim>\<open>""\<close> and
  \<^verbatim>\<open>trimString("  a \t")\<close> is \<^verbatim>\<open>"a"\<close>.
\<close>

theorem trimString_idempotent:
  "(\<exists>y. trimString x = Inr y
        \<and> trimString y = Inr y
        \<and> (\<exists>pre suf. x = pre @ y @ suf
              \<and> list_all (\<lambda>c. c \<in> set whitespace) pre
              \<and> list_all (\<lambda>c. c \<in> set whitespace) suf)
        \<and> (y = [] \<or> (hd y \<notin> set whitespace \<and> last y \<notin> set whitespace))
        \<and> (y = [] \<longleftrightarrow> list_all (\<lambda>c. c \<in> set whitespace) x))
   \<and> whitespace = [CHR '' '', CHR 0x09, CHR 0x0A, CHR 0x0D]
   \<and> trimString [] = Inr []
   \<and> trimString [CHR '' '', CHR '' '', CHR ''a'', CHR '' '', CHR 0x09] = Inr ''a''"
proof -
  let ?P = "\<lambda>c. c \<in> set whitespace"
  let ?y = "rev (dropWhile ?P (rev (dropWhile ?P x)))"
  have 1: "trimString x = Inr ?y" by (rule trimString_eq)
  have "trimString ?y = Inr (rev (dropWhile ?P (rev (dropWhile ?P ?y))))"
    by (rule trimString_eq)
  also have "rev (dropWhile ?P (rev (dropWhile ?P ?y))) = ?y"
    by (rule trimmed_ends)
  finally have 2: "trimString ?y = Inr ?y" .
  have 3: "\<exists>pre suf. x = pre @ ?y @ suf \<and> list_all ?P pre \<and> list_all ?P suf"
    by (rule trimmed_decompose(1))
  have 4: "?y = [] \<or> (hd ?y \<notin> set whitespace \<and> last ?y \<notin> set whitespace)"
    using trimmed_decompose(2) [of ?P x] by simp
  have 5: "?y = [] \<longleftrightarrow> list_all ?P x"
    by (rule trimmed_Nil)
  have 6: "trimString [] = Inr []"
    by (simp add: trimString_def find_first_not_of_def)
  have 7: "trimString [CHR '' '', CHR '' '', CHR ''a'', CHR '' '', CHR 0x09] = Inr ''a''"
    by code_simp
  have A: "\<exists>y. trimString x = Inr y
        \<and> trimString y = Inr y
        \<and> (\<exists>pre suf. x = pre @ y @ suf \<and> list_all ?P pre \<and> list_all ?P suf)
        \<and> (y = [] \<or> (hd y \<notin> set whitespace \<and> last y \<notin> set whitespace))
        \<and> (y = [] \<longleftrightarrow> list_all ?P x)"
    by (rule exI [of _ ?y]) (intro conjI 1 2 3 4 5)
  show ?thesis
    by (intro conjI A whitespace_def 6 7)
qed

theorem trimString_idempotent_witness:
  "trimString [CHR 0x0A, CHR ''a'', CHR '' '', CHR ''b'', CHR 0x0D] = Inr ''a b''
   \<and> trimString ''a b'' = Inr ''a b''
   \<and> trimString [CHR '' '', CHR 0x09, CHR 0x0A, CHR 0x0D] = Inr []"
proof -
  have "trimString [CHR 0x0A, CHR ''a'', CHR '' '', CHR ''b'', CHR 0x0D] = Inr ''a b''"
    by code_simp
  with trimString_idempotent [of "[CHR 0x0A, CHR ''a'', CHR '' '', CHR ''b'', CHR 0x0D]"]
  have "trimString ''a b'' = Inr ''a b''" by auto
  moreover have "trimString [CHR '' '', CHR 0x09, CHR 0x0A, CHR 0x0D] = Inr []"
    by code_simp
  moreover note \<open>trimString [CHR 0x0A, CHR ''a'', CHR '' '', CHR ''b'', CHR 0x0D] = Inr ''a b''\<close>
  ultimately show ?thesis by simp
qed


section \<open>The output path, \<^verbatim>\<open>omitNullStrings\<close> and the value of a field\<close>

lemma find_char_from_eq:
  "find_char_from xs c pos =
     (if c \<in> set xs then Some (pos + length (takeWhile (\<lambda>x. x \<noteq> c) xs)) else None)"
  by (induction xs arbitrary: pos) auto

lemma takeWhile_absent: "c \<notin> set xs \<Longrightarrow> takeWhile (\<lambda>x. x \<noteq> c) xs = xs"
  by (induction xs) auto

lemma takeWhile_first: "c \<notin> set xs \<Longrightarrow> takeWhile (\<lambda>x. x \<noteq> c) (xs @ c # ys) = xs"
  by (induction xs) auto

lemma jsonPath_eq:
  "jsonPath dbFile = Inr (takeWhile (\<lambda>c. c \<noteq> CHR ''.'') dbFile @ ''.json'')"
proof (cases "CHR ''.'' \<in> set dbFile")
  case True
  have "take (length (takeWhile (\<lambda>c. c \<noteq> CHR ''.'') dbFile)) dbFile
          = takeWhile (\<lambda>c. c \<noteq> CHR ''.'') dbFile"
    by (rule takeWhile_eq_take [symmetric])
  with True show ?thesis
    by (simp add: jsonPath_def find_char_def find_char_from_eq substr_def)
next
  case False
  then show ?thesis
    by (simp add: jsonPath_def find_char_def find_char_from_eq takeWhile_absent)
qed

text \<open>
  C8. The output path is the text of the input path before its first \<^verbatim>\<open>'.'\<close>, followed by
  \<^verbatim>\<open>".json"\<close>; without a \<^verbatim>\<open>'.'\<close> it is the whole input path followed by \<^verbatim>\<open>".json"\<close>.
\<close>

theorem jsonPath_first_dot:
  "jsonPath dbFile = Inr (takeWhile (\<lambda>c. c \<noteq> CHR ''.'') dbFile @ ''.json'')
   \<and> (CHR ''.'' \<notin> set dbFile \<longrightarrow> jsonPath dbFile = Inr (dbFile @ ''.json''))
   \<and> (CHR ''.'' \<notin> set stem \<longrightarrow> jsonPath (stem @ CHR ''.'' # rest) = Inr (stem @ ''.json''))
   \<and> jsonPath ''test.db'' = Inr ''test.json''
   \<and> jsonPath ''a.b.db'' = Inr ''a.json''
   \<and> jsonPath ''nodot'' = Inr ''nodot.json''"
proof -
  have 1: "CHR ''.'' \<notin> set dbFile \<longrightarrow> jsonPath dbFile = Inr (dbFile @ ''.json'')"
    by (simp add: jsonPath_eq takeWhile_absent)
  have 2: "CHR ''.'' \<notin> set stem \<longrightarrow>
      jsonPath (stem @ CHR ''.'' # rest) = Inr (stem @ ''.json'')"
    by (simp add: jsonPath_eq takeWhile_first)
  have 3: "jsonPath ''test.db'' = Inr ''test.json''" by code_simp
  have 4: "jsonPath ''a.b.db'' = Inr ''a.json''" by code_simp
  have 5: "jsonPath ''nodot'' = Inr ''nodot.json''" by code_simp
  show ?thesis
    by (intro conjI jsonPath_eq 1 2 3 4 5)
qed

theorem jsonPath_first_dot_witness:
  "CHR ''.'' \<notin> set ''dump'' \<and> jsonPath ''dump'' = Inr ''dump.json''
   \<and> CHR ''.'' \<notin> set ''dir/x'' \<and> jsonPath ''dir/x.sqlite.db'' = Inr ''dir/x.json''"
  using jsonPath_first_dot [of "''dump''" "''dir/x''" "''sqlite.db''"]
  by simp

lemma isNull_eq: "isNull str = list_all (\<lambda>c. c \<in> {CHR '' '', CHR 0x09, CHR 0x0A}) str"
  by (induction str) auto

text \<open>
  C5. \<^verbatim>\<open>omitNullStrings\<close> removes exactly the elements made of spaces, tabs and
  newlines only, in order; a carriage return is not among the characters it looks for,
  so the element \<^verbatim>\<open>"\r"\<close> stays, although \<^verbatim>\<open>trimString\<close> turns it into the empty string.
\<close>

theorem omitNullStrings_keeps_carriage_return:
  "omitNullStrings strings =
     filter (\<lambda>str. \<not> list_all (\<lambda>c. c \<in> {CHR '' '', CHR 0x09, CHR 0x0A}) str) strings
   \<and> omitNullStrings [[CHR 0x0D]] = [[CHR 0x0D]]
   \<and> omitNullStrings [''a'', [CHR 0x0D], '' '', ''b''] = [''a'', [CHR 0x0D], ''b'']
   \<and> trimString [CHR 0x0D] = Inr []"
proof -
  have "trimString [CHR 0x0D] = Inr []" by code_simp
  then show ?thesis by (simp add: omitNullStrings_def isNull_eq)
qed

text \<open>
  C1. \<^verbatim>\<open>std::stoi\<close> reads the longest leading integer and ignores what follows it, so a
  field is stored as an integer as soon as it starts with one: \<^verbatim>\<open>"3.14"\<close> is stored as
  the integer 3 and \<^verbatim>\<open>"7abc"\<close> as the integer 7, whatever \<^verbatim>\<open>std::stod\<close> would return.
\<close>

theorem field_value_integer_prefix:
  "field_value stod ''3.14'' = Number_integer 3
   \<and> field_value stod ''7abc'' = Number_integer 7
   \<and> field_value stod ''42'' = Number_integer 42
   \<and> field_value stod ''abc'' =
       (case stod ''abc'' of Inr real \<Rightarrow> Number_float real | Inl e \<Rightarrow> String ''abc'')"
proof -
  have "stoi ''3.14'' = Inr 3" by code_simp
  moreover have "stoi ''7abc'' = Inr 7" by code_simp
  moreover have "stoi ''42'' = Inr 42" by code_simp
  moreover have "stoi ''abc'' = Inl (Invalid_argument ''stoi'')" by code_simp
  ultimately show ?thesis by (simp add: field_value_def)
qed


section \<open>\<^verbatim>\<open>getTableRecords\<close> and \<^verbatim>\<open>getTableColumns\<close>\<close>

lemma call_partial_splitString:
  assumes "separator \<noteq> []"
  shows "\<exists>tokens. splitString input separator = Some (Inr tokens)
           \<and> call_partial (splitString input separator) = Inr tokens"
  using splitString_returns [OF assms, of input]
  by (auto simp: call_partial_def call_def)

lemma fieldAllEmpty_eq: "fieldAllEmpty record = list_all (\<lambda>field. field = []) record"
  by (induction "record") auto

lemma records_loop_eq:
  "\<exists>split. map (\<lambda>line. splitString line ''|'') lines = map (\<lambda>record. Some (Inr record)) split
     \<and> (\<forall>records. records_loop lines records =
           Inr (records @ filter (\<lambda>record. \<not> (length record = 0
                                   \<or> list_all (\<lambda>field. field = []) record)) split))"
proof (induction lines)
  case Nil
  show ?case by (rule exI [of _ "[]"]) simp
next
  case (Cons line lines)
  then obtain split where
    m: "map (\<lambda>line. splitString line ''|'') lines = map (\<lambda>record. Some (Inr record)) split"
    and r: "\<And>records. records_loop lines records =
           Inr (records @ filter (\<lambda>record. \<not> (length record = 0
                                   \<or> list_all (\<lambda>field. field = []) record)) split)"
    by blast
  from call_partial_splitString [of "''|''" line] obtain fields where
    s: "splitString line ''|'' = Some (Inr fields)"
    and c: "call_partial (splitString line ''|'') = Inr fields"
    by auto
  show ?case
    by (rule exI [of _ "fields # split"]) (simp add: m s r fieldAllEmpty_eq call_partial_def call_def)
qed

text \<open>
  C2. \<^verbatim>\<open>getTableRecords\<close> splits the output of the query into lines and every line on
  \<^verbatim>\<open>'|'\<close>; it returns, in the order of the lines, the records that have at least one
  field and a field that is not empty, and drops every other line.
\<close>

theorem getTableRecords_filter:
  assumes "execute popen (shl (shl (shl [] ''sqlite3'') dbFile') (select_query table)) = Inr out"
  shows "\<exists>lines split.
           splitString out [CHR 0x0A] = Some (Inr lines)
         \<and> map (\<lambda>line. splitString line ''|'') lines = map (\<lambda>record. Some (Inr record)) split
         \<and> getTableRecords popen dbFile' table =
             Inr (filter (\<lambda>record. \<not> (length record = 0
                                   \<or> list_all (\<lambda>field. field = []) record)) split)"
proof -
  from call_partial_splitString [of "[CHR 0x0A]" out] obtain lines where
    s: "splitString out [CHR 0x0A] = Some (Inr lines)"
    and c: "call_partial (splitString out [CHR 0x0A]) = Inr lines"
    by auto
  from records_loop_eq [of lines] obtain split where
    m: "map (\<lambda>line. splitString line ''|'') lines = map (\<lambda>record. Some (Inr record)) split"
    and r: "records_loop lines [] =
           Inr ([] @ filter (\<lambda>record. \<not> (length record = 0
                                   \<or> list_all (\<lambda>field. field = []) record)) split)"
    by blast
  have "getTableRecords popen dbFile' table =
      Inr (filter (\<lambda>record. \<not> (length record = 0
                                   \<or> list_all (\<lambda>field. field = []) record)) split)"
    using assms c r by (simp add: getTableRecords_def)
  with s m show ?thesis by blast
qed

theorem getTableRecords_filter_witness:
  "execute (\<lambda>cmd. Output ''1|Alice|30\<newline>||\<newline>2|Bob|\<newline>'')
       (shl (shl (shl [] ''sqlite3'') (Database ''test.db'')) (select_query ''people''))
     = Inr ''1|Alice|30\<newline>||\<newline>2|Bob|\<newline>''
   \<and> getTableRecords (\<lambda>cmd. Output ''1|Alice|30\<newline>||\<newline>2|Bob|\<newline>'')
       (Database ''test.db'') ''people''
     = Inr [[''1'', ''Alice'', ''30''], [''2'', ''Bob'', []]]"
proof -
  have h: "execute (\<lambda>cmd. Output ''1|Alice|30\<newline>||\<newline>2|Bob|\<newline>'')
       (shl (shl (shl [] ''sqlite3'') (Database ''test.db'')) (select_query ''people''))
     = Inr ''1|Alice|30\<newline>||\<newline>2|Bob|\<newline>''"
    by code_simp
  have v: "getTableRecords (\<lambda>cmd. Output ''1|Alice|30\<newline>||\<newline>2|Bob|\<newline>'')
       (Database ''test.db'') ''people''
     = Inr [[''1'', ''Alice'', ''30''], [''2'', ''Bob'', []]]"
    by code_simp
  from getTableRecords_filter [OF h] h v show ?thesis by simp
qed

lemma columns_loop_eq:
  "\<exists>split. map (\<lambda>line. splitString line ''|'') lines = map (\<lambda>parts. Some (Inr parts)) split
     \<and> (\<forall>columns. columns_loop lines columns =
           (if list_all (\<lambda>parts. 2 \<le> length parts) split
            then Inr (columns @ map (\<lambda>parts. parts ! 1) split)
            else Inl Undefined))"
proof (induction lines)
  case Nil
  show ?case by (rule exI [of _ "[]"]) simp
next
  case (Cons line lines)
  then obtain split where
    m: "map (\<lambda>line. splitString line ''|'') lines = map (\<lambda>parts. Some (Inr parts)) split"
    and r: "\<And>columns. columns_loop lines columns =
           (if list_all (\<lambda>parts. 2 \<le> length parts) split
            then Inr (columns @ map (\<lambda>parts. parts ! 1) split)
            else Inl Undefined)"
    by blast
  from call_partial_splitString [of "''|''" line] obtain parts where
    s: "splitString line ''|'' = Some (Inr parts)"
    and c: "call_partial (splitString line ''|'') = Inr parts"
    by auto
  have "2 \<le> length parts \<longleftrightarrow> 1 < length parts" by auto
  then show ?case
    by (intro exI [of _ "parts # split"]) (simp add: m s r call_partial_def call_def)
qed

text \<open>
  C7. \<^verbatim>\<open>getTableColumns\<close> splits the output into lines, drops the blank ones and splits
  each of the others on \<^verbatim>\<open>'|'\<close>. When every such line has at least two fields it returns
  their fields at index 1, in order; as soon as one has fewer, \<^verbatim>\<open>parts[1]\<close> reads beyond
  the end of the vector and the behaviour is undefined.
\<close>

theorem getTableColumns_index_1:
  assumes "execute popen (shl (shl (shl [] ''sqlite3'') dbFile') (table_info_query table)) = Inr out"
  shows "\<exists>lines split.
           splitString out [CHR 0x0A] = Some (Inr lines)
         \<and> map (\<lambda>line. splitString line ''|'') (omitNullStrings lines)
             = map (\<lambda>parts. Some (Inr parts)) split
         \<and> getTableColumns popen dbFile' table =
             (if list_all (\<lambda>parts. 2 \<le> length parts) split
              then Inr (map (\<lambda>parts. parts ! 1) split)
              else Inl Undefined)"
proof -
  from call_partial_splitString [of "[CHR 0x0A]" out] obtain lines where
    s: "splitString out [CHR 0x0A] = Some (Inr lines)"
    and c: "call_partial (splitString out [CHR 0x0A]) = Inr lines"
    by auto
  from columns_loop_eq [of "omitNullStrings lines"] obtain split where
    m: "map (\<lambda>line. splitString line ''|'') (omitNullStrings lines)
          = map (\<lambda>parts. Some (Inr parts)) split"
    and r: "columns_loop (omitNullStrings lines) [] =
           (if list_all (\<lambda>parts. 2 \<le> length parts) split
            then Inr ([] @ map (\<lambda>parts. parts ! 1) split)
            else Inl Undefined)"
    by blast
  have "getTableColumns popen dbFile' table =
      (if list_all (\<lambda>parts. 2 \<le> length parts) split
              then Inr (map (\<lambda>parts. parts ! 1) split)
              else Inl Undefined)"
    using assms c r by (simp add: getTableColumns_def)
  with s m show ?thesis by blast
qed

theorem getTableColumns_index_1_witness:
  "execute (\<lambda>cmd. Output ''0|id|INTEGER|0||1\<newline>1|name|TEXT|0||0\<newline>'')
       (shl (shl (shl [] ''sqlite3'') (Database ''test.db'')) (table_info_query ''people''))
     = Inr ''0|id|INTEGER|0||1\<newline>1|name|TEXT|0||0\<newline>''
   \<and> getTableColumns (\<lambda>cmd. Output ''0|id|INTEGER|0||1\<newline>1|name|TEXT|0||0\<newline>'')
       (Database ''test.db'') ''people''
     = Inr [''id'', ''name'']
   \<and> execute (\<lambda>cmd. Output ''0|id|INTEGER|0||1\<newline>name\<newline>'')
       (shl (shl (shl [] ''sqlite3'') (Database ''test.db'')) (table_info_query ''people''))
     = Inr ''0|id|INTEGER|0||1\<newline>name\<newline>''
   \<and> getTableColumns (\<lambda>cmd. Output ''0|id|INTEGER|0||1\<newline>name\<newline>'')
       (Database ''test.db'') ''people''
     = Inl Undefined"
proof -
  have h: "execute (\<lambda>cmd. Output ''0|id|INTEGER|0||1\<newline>1|name|TEXT|0||0\<newline>'')
       (shl (shl (shl [] ''sqlite3'') (Database ''test.db'')) (table_info_query ''people''))
     = Inr ''0|id|INTEGER|0||1\<newline>1|name|TEXT|0||0\<newline>''"
    by code_simp
  have v: "getTableColumns (\<lambda>cmd. Output ''0|id|INTEGER|0||1\<newline>1|name|TEXT|0||0\<newline>'')
       (Database ''test.db'') ''people''
     = Inr [''id'', ''name'']"
    by code_simp
  have h': "execute (\<lambda>cmd. Output ''0|id|INTEGER|0||1\<newline>name\<newline>'')
       (shl (shl (shl [] ''sqlite3'') (Database ''test.db'')) (table_info_query ''people''))
     = Inr ''0|id|INTEGER|0||1\<newline>name\<newline>''"
    by code_simp
  have v': "getTableColumns (\<lambda>cmd. Output ''0|id|INTEGER|0||1\<newline>name\<newline>'')
       (Database ''test.db'') ''people''
     = Inl Undefined"
    by code_simp
  from getTableColumns_index_1 [OF h] getTableColumns_index_1 [OF h'] h v h' v'
  show ?thesis by simp
qed


section \<open>The records of the document\<close>

lemma subscript_lookup:
  assumes "j = Null \<or> (\<exists>members. j = Object members)"
  shows "\<exists>members'. subscript j key = Inr (Object members')
           \<and> (\<forall>k. map_of members' k =
                 (if k = key then Some (case lookup j key of None \<Rightarrow> Null | Some v \<Rightarrow> v)
                  else lookup j k))"
  using assms
proof
  assume "j = Null"
  then show ?thesis by simp
next
  assume "\<exists>members. j = Object members"
  then obtain members where j: "j = Object members" by blast
  show ?thesis
  proof (cases "map_of members key")
    case None
    then show ?thesis by (auto simp: j map_add_def split: option.splits)
  next
    case (Some v)
    then show ?thesis by (simp add: j)
  qed
qed

lemma store_lookup:
  "map_of (map (\<lambda>(k', old). if k' = key then (k', v) else (k', old)) members) k =
     (if k = key \<and> map_of members key \<noteq> None then Some v else map_of members k)"
  by (induction members) auto

lemma set_field_lookup:
  assumes "j = Null \<or> (\<exists>members. j = Object members)"
  shows "\<exists>members'. set_field stod j column field = Inr (Object members')
           \<and> (\<forall>k. map_of members' k =
                 (if k = column
                  then Some (if field = [] then (case lookup j column of None \<Rightarrow> Null | Some v \<Rightarrow> v)
                             else field_value stod field)
                  else lookup j k))"
proof -
  from subscript_lookup [OF assms, of column] obtain members' where
    s: "subscript j column = Inr (Object members')"
    and l: "\<And>k. map_of members' k =
                 (if k = column then Some (case lookup j column of None \<Rightarrow> Null | Some v \<Rightarrow> v)
                  else lookup j k)"
    by blast
  show ?thesis
  proof (cases "field = []")
    case True
    with s l show ?thesis by (simp add: set_field_def)
  next
    case False
    have "set_field stod j column field =
        Inr (Object (map (\<lambda>(k', old). if k' = column then (k', field_value stod field)
                                        else (k', old)) members'))"
      using False s by (simp add: set_field_def)
    moreover have "\<forall>k. map_of (map (\<lambda>(k', old). if k' = column then (k', field_value stod field)
                                        else (k', old)) members') k =
        (if k = column then Some (field_value stod field) else lookup j k)"
      by (simp add: store_lookup l)
    ultimately show ?thesis using False by simp
  qed
qed

lemma distinct_take_nth:
  assumes "distinct (take m xs)" "a < m" "b < m" "a < length xs" "b < length xs" "a \<noteq> b"
  shows "xs ! a \<noteq> xs ! b"
  using assms nth_eq_iff_index_eq [of "take m xs" a b] by simp

lemma fields_loop_lookup:
  assumes "j = Null \<or> (\<exists>members. j = Object members)"
    and "fields_loop stod columns row i j = Inr j'"
  shows "(j' = Null \<or> (\<exists>members. j' = Object members))
       \<and> (\<forall>n. i \<le> n \<and> n < length row \<longrightarrow> n < length columns)
       \<and> (\<forall>k. (\<forall>n. i \<le> n \<and> n < length row \<longrightarrow> columns ! n \<noteq> k)
              \<longrightarrow> lookup j' k = lookup j k)
       \<and> (\<forall>n. i \<le> n \<and> n < length row \<longrightarrow> lookup j' (columns ! n) \<noteq> None)
       \<and> (\<forall>k. lookup j k \<noteq> None \<longrightarrow> lookup j' k \<noteq> None)
       \<and> (distinct (take (length row) columns) \<longrightarrow>
            (\<forall>n. i \<le> n \<and> n < length row \<and> lookup j (columns ! n) = None \<longrightarrow>
               lookup j' (columns ! n) =
                 Some (if row ! n = [] then Null else field_value stod (row ! n))))"
  using assms
proof (induction "length row - i" arbitrary: i j)
  case 0
  then have "length row \<le> i" by simp
  with "0.prems" show ?case by (auto simp: fields_loop.simps)
next
  case (Suc d)
  then have lt: "i < length row" by simp
  show ?case
  proof (cases "i < length columns")
    case False
    with lt Suc.prems(2) show ?thesis by (simp add: fields_loop.simps)
  next
    case True
    from set_field_lookup [OF Suc.prems(1), of stod "columns ! i" "row ! i"]
    obtain members1 where
      s: "set_field stod j (columns ! i) (row ! i) = Inr (Object members1)"
      and l: "\<And>k. map_of members1 k =
                 (if k = columns ! i
                  then Some (if row ! i = []
                             then (case lookup j (columns ! i) of None \<Rightarrow> Null | Some v \<Rightarrow> v)
                             else field_value stod (row ! i))
                  else lookup j k)"
      by blast
    have rest: "fields_loop stod columns row (Suc i) (Object members1) = Inr j'"
      using Suc.prems(2) lt True s by (subst (asm) fields_loop.simps) simp
    have d: "d = length row - Suc i" using Suc.hyps(2) by simp
    have shape: "Object members1 = Null \<or> (\<exists>members. Object members1 = Object members)"
      by simp
    note IH = Suc.hyps(1) [OF d shape rest]
    have l1: "\<And>k. lookup (Object members1) k = map_of members1 k" by simp
    have range: "\<forall>n. i \<le> n \<and> n < length row \<longrightarrow> n < length columns"
    proof (intro allI impI)
      fix n assume "i \<le> n \<and> n < length row"
      then have "n = i \<or> (Suc i \<le> n \<and> n < length row)" by auto
      with True IH show "n < length columns" by blast
    qed
    have frame: "\<forall>k. (\<forall>n. i \<le> n \<and> n < length row \<longrightarrow> columns ! n \<noteq> k)
              \<longrightarrow> lookup j' k = lookup j k"
    proof (intro allI impI)
      fix k assume a: "\<forall>n. i \<le> n \<and> n < length row \<longrightarrow> columns ! n \<noteq> k"
      then have "\<forall>n. Suc i \<le> n \<and> n < length row \<longrightarrow> columns ! n \<noteq> k" by auto
      with IH have "lookup j' k = lookup (Object members1) k" by blast
      moreover from a lt have "columns ! i \<noteq> k" by auto
      ultimately show "lookup j' k = lookup j k" by (simp add: l)
    qed
    have keep: "\<forall>k. lookup j k \<noteq> None \<longrightarrow> lookup j' k \<noteq> None"
    proof (intro allI impI)
      fix k assume "lookup j k \<noteq> None"
      then have "lookup (Object members1) k \<noteq> None" by (simp add: l)
      with IH show "lookup j' k \<noteq> None" by blast
    qed
    have present: "\<forall>n. i \<le> n \<and> n < length row \<longrightarrow> lookup j' (columns ! n) \<noteq> None"
    proof (intro allI impI)
      fix n assume n: "i \<le> n \<and> n < length row"
      show "lookup j' (columns ! n) \<noteq> None"
      proof (cases "n = i")
        case True
        have "lookup (Object members1) (columns ! i) \<noteq> None" by (simp add: l)
        with IH True show ?thesis by blast
      next
        case False
        with n have "Suc i \<le> n \<and> n < length row" by auto
        with IH show ?thesis by blast
      qed
    qed
    have vals: "distinct (take (length row) columns) \<longrightarrow>
            (\<forall>n. i \<le> n \<and> n < length row \<and> lookup j (columns ! n) = None \<longrightarrow>
               lookup j' (columns ! n) =
                 Some (if row ! n = [] then Null else field_value stod (row ! n)))"
    proof (intro allI impI)
      fix n
      assume dist: "distinct (take (length row) columns)"
        and n: "i \<le> n \<and> n < length row \<and> lookup j (columns ! n) = None"
      have neq: "\<And>a b. a < length row \<Longrightarrow> b < length row \<Longrightarrow> a \<noteq> b \<Longrightarrow>
          columns ! a \<noteq> columns ! b"
      proof -
        fix a b assume ab: "a < length row" "b < length row" "a \<noteq> b"
        have inr: "\<And>m. m < length row \<Longrightarrow> m < length columns"
        proof -
          fix m assume m: "m < length row"
          show "m < length columns"
          proof (cases "i \<le> m")
            case True
            with m range show ?thesis by blast
          next
            case False
            with \<open>i < length columns\<close> show ?thesis by simp
          qed
        qed
        from dist ab inr show "columns ! a \<noteq> columns ! b"
          by (intro distinct_take_nth [of "length row" columns a b]) simp_all
      qed
      show "lookup j' (columns ! n) =
                 Some (if row ! n = [] then Null else field_value stod (row ! n))"
      proof (cases "n = i")
        case True
        have "\<forall>m. Suc i \<le> m \<and> m < length row \<longrightarrow> columns ! m \<noteq> columns ! i"
          using neq lt by auto
        with IH have "lookup j' (columns ! i) = lookup (Object members1) (columns ! i)"
          by blast
        also have "\<dots> = Some (if row ! i = [] then Null else field_value stod (row ! i))"
          using n True by (simp add: l)
        finally show ?thesis using True by simp
      next
        case False
        with n have n': "Suc i \<le> n \<and> n < length row" by auto
        then have "columns ! n \<noteq> columns ! i" using neq lt by auto
        with n have "lookup (Object members1) (columns ! n) = None" by (simp add: l)
        with IH dist n' show ?thesis by blast
      qed
    qed
    from IH range frame present keep vals show ?thesis by blast
  qed
qed

lemma field_value_not_Null: "field_value stod field \<noteq> Null"
  by (simp add: field_value_def split: sum.splits)

lemma records_json_eq:
  assumes "emplace_back t = Inr previous"
    and "records_json stod columns records t = Inr t'"
  shows "\<exists>emitted. (if records = [] then t' = t else t' = Array (previous @ emitted))
           \<and> list_all2 (\<lambda>row obj. fields_loop stod columns row 0 Null = Inr obj) records emitted"
  using assms
proof (induction records arbitrary: t previous)
  case Nil
  then show ?case by simp
next
  case (Cons row records)
  from Cons.prems obtain obj where
    f: "fields_loop stod columns row 0 Null = Inr obj"
    and r: "records_json stod columns records (Array (previous @ [obj])) = Inr t'"
    by (cases "fields_loop stod columns row 0 Null") auto
  have e: "emplace_back (Array (previous @ [obj])) = Inr (previous @ [obj])" by simp
  from Cons.IH [OF e r] obtain emitted where
    s: "if records = [] then t' = Array (previous @ [obj])
        else t' = Array ((previous @ [obj]) @ emitted)"
    and l: "list_all2 (\<lambda>row obj. fields_loop stod columns row 0 Null = Inr obj) records emitted"
    by blast
  from l have "records = [] \<longrightarrow> emitted = []" by auto
  with s have "t' = Array (previous @ obj # emitted)" by (auto split: if_splits)
  with f l show ?case by (intro exI [of _ "obj # emitted"]) simp
qed

lemma fields_loop_null:
  assumes "j = Null \<or> (\<exists>members. j = Object members)"
    and "fields_loop stod columns row i j = Inr j'"
  shows "(lookup j' k = None \<or> lookup j' k = Some Null) \<longleftrightarrow>
           (lookup j k = None \<or> lookup j k = Some Null)
         \<and> (\<forall>n. i \<le> n \<and> n < length row \<and> columns ! n = k \<longrightarrow> row ! n = [])"
  using assms
proof (induction "length row - i" arbitrary: i j)
  case 0
  then have "length row \<le> i" by simp
  with "0.prems" show ?case by (auto simp: fields_loop.simps)
next
  case (Suc d)
  then have lt: "i < length row" by simp
  show ?case
  proof (cases "i < length columns")
    case False
    with lt Suc.prems(2) show ?thesis by (simp add: fields_loop.simps)
  next
    case True
    from set_field_lookup [OF Suc.prems(1), of stod "columns ! i" "row ! i"]
    obtain members1 where
      s: "set_field stod j (columns ! i) (row ! i) = Inr (Object members1)"
      and l: "\<And>k. map_of members1 k =
                 (if k = columns ! i
                  then Some (if row ! i = []
                             then (case lookup j (columns ! i) of None \<Rightarrow> Null | Some v \<Rightarrow> v)
                             else field_value stod (row ! i))
                  else lookup j k)"
      by blast
    have rest: "fields_loop stod columns row (Suc i) (Object members1) = Inr j'"
      using Suc.prems(2) lt True s by (subst (asm) fields_loop.simps) simp
    have d: "d = length row - Suc i" using Suc.hyps(2) by simp
    have shape: "Object members1 = Null \<or> (\<exists>members. Object members1 = Object members)"
      by simp
    note IH = Suc.hyps(1) [OF d shape rest]
    have step: "(map_of members1 k = None \<or> map_of members1 k = Some Null) \<longleftrightarrow>
        (lookup j k = None \<or> lookup j k = Some Null) \<and> (columns ! i = k \<longrightarrow> row ! i = [])"
      using field_value_not_Null [of stod "row ! i"]
      by (auto simp: l split: option.splits)
    have split: "(\<forall>n. i \<le> n \<and> n < length row \<and> columns ! n = k \<longrightarrow> row ! n = []) \<longleftrightarrow>
        (columns ! i = k \<longrightarrow> row ! i = [])
        \<and> (\<forall>n. Suc i \<le> n \<and> n < length row \<and> columns ! n = k \<longrightarrow> row ! n = [])"
    proof
      assume a: "\<forall>n. i \<le> n \<and> n < length row \<and> columns ! n = k \<longrightarrow> row ! n = []"
      with lt show "(columns ! i = k \<longrightarrow> row ! i = [])
        \<and> (\<forall>n. Suc i \<le> n \<and> n < length row \<and> columns ! n = k \<longrightarrow> row ! n = [])"
        by auto
    next
      assume a: "(columns ! i = k \<longrightarrow> row ! i = [])
        \<and> (\<forall>n. Suc i \<le> n \<and> n < length row \<and> columns ! n = k \<longrightarrow> row ! n = [])"
      show "\<forall>n. i \<le> n \<and> n < length row \<and> columns ! n = k \<longrightarrow> row ! n = []"
      proof (intro allI impI)
        fix n assume n: "i \<le> n \<and> n < length row \<and> columns ! n = k"
        then have "n = i \<or> Suc i \<le> n" by auto
        with a n show "row ! n = []" by auto
      qed
    qed
    from IH step split show ?thesis by simp
  qed
qed

lemma fields_loop_fault:
  assumes "j = Null \<or> (\<exists>members. j = Object members)"
    and "fields_loop stod columns row i j = Inl flt"
  shows "flt = Undefined"
  using assms
proof (induction "length row - i" arbitrary: i j)
  case 0
  then have "length row \<le> i" by simp
  with "0.prems" show ?case by (simp add: fields_loop.simps)
next
  case (Suc d)
  then have lt: "i < length row" by simp
  show ?case
  proof (cases "i < length columns")
    case False
    with lt Suc.prems(2) show ?thesis by (simp add: fields_loop.simps)
  next
    case True
    from set_field_lookup [OF Suc.prems(1), of stod "columns ! i" "row ! i"]
    obtain members1 where
      s: "set_field stod j (columns ! i) (row ! i) = Inr (Object members1)"
      by blast
    have rest: "fields_loop stod columns row (Suc i) (Object members1) = Inl flt"
      using Suc.prems(2) lt True s by (subst (asm) fields_loop.simps) simp
    have d: "d = length row - Suc i" using Suc.hyps(2) by simp
    have shape: "Object members1 = Null \<or> (\<exists>members. Object members1 = Object members)"
      by simp
    from Suc.hyps(1) [OF d shape rest] show ?thesis .
  qed
qed

text \<open>
  What one record becomes. When the loop over the fields returns, the record has no
  more fields than there are column names; every field's column name is a key of the
  object; and the value under a key is null exactly when every field of the record
  that goes with this column name is empty.
\<close>

lemma record_object:
  assumes "fields_loop stod columns row 0 Null = Inr obj"
    and "i < length row"
  shows "i < length columns"
    and "\<exists>v. lookup obj (columns ! i) = Some v"
    and "lookup obj (columns ! i) = Some Null \<longleftrightarrow>
           (\<forall>n<length row. columns ! n = columns ! i \<longrightarrow> row ! n = [])"
proof -
  have shape: "(Null :: 'a json) = Null \<or> (\<exists>members. (Null :: 'a json) = Object members)"
    by simp
  note L = fields_loop_lookup [OF shape assms(1)]
  from L assms(2) show "i < length columns" by simp
  from L assms(2) have p: "lookup obj (columns ! i) \<noteq> None" by simp
  then show "\<exists>v. lookup obj (columns ! i) = Some v" by simp
  from fields_loop_null [OF shape assms(1), of "columns ! i"] p
  show "lookup obj (columns ! i) = Some Null \<longleftrightarrow>
           (\<forall>n<length row. columns ! n = columns ! i \<longrightarrow> row ! n = [])"
    by auto
qed

text \<open>
  The invariant of the loop over the tables. \<open>emitted_by\<close>: the object is what the
  loop over the fields makes of one record of the table, with the table's column
  names. \<open>document_inv\<close>: the document is null or an object, and what it holds under a
  table's name is null or an array of such objects.
\<close>

definition emitted_by ::
  "env \<Rightarrow> (string \<Rightarrow> exn + 'r) \<Rightarrow> string \<Rightarrow> string \<Rightarrow> 'r json \<Rightarrow> bool" where
  "emitted_by popen stod dbFile' table obj \<longleftrightarrow>
     (\<exists>columns records row.
        getTableColumns popen dbFile' table = Inr columns
      \<and> getTableRecords popen dbFile' table = Inr records
      \<and> row \<in> set records
      \<and> fields_loop stod columns row 0 Null = Inr obj)"

definition table_inv ::
  "env \<Rightarrow> (string \<Rightarrow> exn + 'r) \<Rightarrow> string \<Rightarrow> string \<Rightarrow> 'r json \<Rightarrow> bool" where
  "table_inv popen stod dbFile' table t \<longleftrightarrow>
     t = Null \<or> (\<exists>elements. t = Array elements
                   \<and> (\<forall>obj \<in> set elements. emitted_by popen stod dbFile' table obj))"

definition document_inv ::
  "env \<Rightarrow> (string \<Rightarrow> exn + 'r) \<Rightarrow> string \<Rightarrow> 'r json \<Rightarrow> bool" where
  "document_inv popen stod dbFile' j \<longleftrightarrow>
     j = Null \<or> (\<exists>members. j = Object members
                   \<and> (\<forall>table t. map_of members table = Some t
                          \<longrightarrow> table_inv popen stod dbFile' table t))"

text \<open>
  The outcomes of the conversion other than a result: undefined behaviour, or a
  command that never finishes.
\<close>

definition engine_fault :: "env \<Rightarrow> fault \<Rightarrow> bool" where
  "engine_fault popen flt \<longleftrightarrow> flt = Undefined \<or> (flt = Diverge \<and> (\<exists>cmd. popen cmd = Hangs))"

lemma and_then_fault:
  "and_then m f = Inl flt \<Longrightarrow> m = Inl flt \<or> (\<exists>x. m = Inr x \<and> f x = Inl flt)"
  by (cases m) simp_all

lemma and_then_result:
  "and_then m f = Inr y \<Longrightarrow> \<exists>x. m = Inr x \<and> f x = Inr y"
  by (cases m) simp_all

lemma execute_fault: "execute popen command' = Inl flt \<Longrightarrow> engine_fault popen flt"
  by (auto simp: execute_def runCommand_def engine_fault_def split: if_splits pipe.splits)

lemma list_all2_witness:
  "list_all2 P xs ys \<Longrightarrow> y \<in> set ys \<Longrightarrow> \<exists>x \<in> set xs. P x y"
  by (induction rule: list_all2_induct) auto

lemma records_json_inv:
  assumes "getTableColumns popen dbFile' table = Inr columns"
    and "getTableRecords popen dbFile' table = Inr records"
    and "set rows \<subseteq> set records"
    and "table_inv popen stod dbFile' table t"
    and "records_json stod columns rows t = Inr t'"
  shows "table_inv popen stod dbFile' table t'"
proof -
  from assms(4) obtain previous where
    e: "emplace_back t = Inr previous"
    and p: "\<forall>obj \<in> set previous. emitted_by popen stod dbFile' table obj"
    by (auto simp: table_inv_def)
  from records_json_eq [OF e assms(5)] obtain emitted where
    t': "if rows = [] then t' = t else t' = Array (previous @ emitted)"
    and l: "list_all2 (\<lambda>row obj. fields_loop stod columns row 0 Null = Inr obj) rows emitted"
    by blast
  have "\<forall>obj \<in> set emitted. emitted_by popen stod dbFile' table obj"
  proof
    fix obj assume "obj \<in> set emitted"
    from list_all2_witness [OF l this] obtain row where
      "row \<in> set rows" and "fields_loop stod columns row 0 Null = Inr obj"
      by blast
    with assms(1,2,3) show "emitted_by popen stod dbFile' table obj"
      by (auto simp: emitted_by_def)
  qed
  with p t' assms(4) show ?thesis
    by (auto simp: table_inv_def split: if_splits)
qed

lemma records_json_fault:
  assumes "t = Null \<or> (\<exists>elements. t = Array elements)"
    and "records_json stod columns rows t = Inl flt"
  shows "flt = Undefined"
  using assms
proof (induction rows arbitrary: t)
  case Nil
  then show ?case by simp
next
  case (Cons row rows)
  from Cons.prems(1) obtain previous where e: "emplace_back t = Inr previous" by auto
  show ?case
  proof (cases "fields_loop stod columns row 0 Null")
    case (Inl flt')
    with Cons.prems(2) e have "flt' = flt" by simp
    moreover have "flt' = Undefined"
      using fields_loop_fault [of Null stod columns row 0 flt'] Inl by simp
    ultimately show ?thesis by simp
  next
    case (Inr obj)
    with Cons.prems(2) e have
      "records_json stod columns rows (Array (previous @ [obj])) = Inl flt" by simp
    moreover have "Array (previous @ [obj]) = Null
        \<or> (\<exists>elements. Array (previous @ [obj]) = Array elements)" by simp
    ultimately show ?thesis by (rule Cons.IH [rotated])
  qed
qed

lemma trim_each_returns: "\<exists>ys. trim_each xs = Inr ys"
proof (induction xs)
  case Nil
  show ?case by simp
next
  case (Cons x xs)
  have "\<exists>y. trimString x = Inr y" by (simp add: trimString_eq)
  then obtain y where "trimString x = Inr y" by blast
  with Cons show ?case by (auto simp: call_def)
qed

lemma table_step:
  assumes "document_inv popen stod dbFile' json"
  shows "\<exists>members1. subscript json table = Inr (Object members1)
     \<and> table_inv popen stod dbFile' table (member (Object members1) table)
     \<and> (\<forall>tableJson. table_inv popen stod dbFile' table tableJson \<longrightarrow>
           document_inv popen stod dbFile' (store (Object members1) table tableJson))"
proof -
  from assms have shape: "json = Null \<or> (\<exists>members. json = Object members)"
    by (auto simp: document_inv_def)
  from subscript_lookup [OF shape, of table] obtain members1 where
    s: "subscript json table = Inr (Object members1)"
    and l: "\<And>k. map_of members1 k =
              (if k = table then Some (case lookup json table of None \<Rightarrow> Null | Some v \<Rightarrow> v)
               else lookup json k)"
    by blast
  have old: "table_inv popen stod dbFile' k t" if "lookup json k = Some t" for k t
    using assms that by (auto simp: document_inv_def)
  have m: "table_inv popen stod dbFile' table (member (Object members1) table)"
  proof (cases "lookup json table")
    case None
    then show ?thesis by (simp add: l table_inv_def)
  next
    case (Some t)
    with old [of table t] show ?thesis by (simp add: l)
  qed
  have st: "document_inv popen stod dbFile' (store (Object members1) table tableJson)"
    if t: "table_inv popen stod dbFile' table tableJson" for tableJson
  proof -
    have "table_inv popen stod dbFile' k v"
      if "map_of (map (\<lambda>(k', old). if k' = table then (k', tableJson) else (k', old)) members1) k
            = Some v" for k v
    proof (cases "k = table")
      case True
      with that have "v = tableJson" by (simp add: store_lookup l)
      with t True show ?thesis by simp
    next
      case False
      with that have "lookup json k = Some v" by (simp add: store_lookup l)
      then show ?thesis by (rule old)
    qed
    then show ?thesis by (simp add: document_inv_def)
  qed
  from s m st show ?thesis by blast
qed

lemma getTables_fault:
  assumes "getTables popen dbFile' = Inl flt"
  shows "engine_fault popen flt"
proof -
  from assms have "and_then (execute popen (shl (shl (shl [] ''sqlite3'') dbFile') ''.tables''))
      (\<lambda>out. and_then (call_partial (splitString out '' ''))
         (\<lambda>tables. trim_each (omitNullStrings tables))) = Inl flt"
    by (simp add: getTables_def)
  from and_then_fault [OF this] show ?thesis
  proof
    assume "execute popen (shl (shl (shl [] ''sqlite3'') dbFile') ''.tables'') = Inl flt"
    then show ?thesis by (rule execute_fault)
  next
    assume "\<exists>out. execute popen (shl (shl (shl [] ''sqlite3'') dbFile') ''.tables'') = Inr out
        \<and> and_then (call_partial (splitString out '' ''))
             (\<lambda>tables. trim_each (omitNullStrings tables)) = Inl flt"
    then obtain out where
      a: "and_then (call_partial (splitString out '' ''))
             (\<lambda>tables. trim_each (omitNullStrings tables)) = Inl flt"
      by blast
    from call_partial_splitString [of "'' ''" out] obtain tokens where
      "call_partial (splitString out '' '') = Inr tokens" by auto
    with a have "trim_each (omitNullStrings tokens) = Inl flt" by simp
    with trim_each_returns [of "omitNullStrings tokens"] show ?thesis by auto
  qed
qed

lemma getTableColumns_fault:
  assumes "getTableColumns popen dbFile' table = Inl flt"
  shows "engine_fault popen flt"
proof -
  from assms have
    "and_then (execute popen (shl (shl (shl [] ''sqlite3'') dbFile') (table_info_query table)))
      (\<lambda>out. and_then (call_partial (splitString out [CHR 0x0A]))
         (\<lambda>lines. columns_loop (omitNullStrings lines) [])) = Inl flt"
    by (simp add: getTableColumns_def)
  from and_then_fault [OF this] show ?thesis
  proof
    assume "execute popen (shl (shl (shl [] ''sqlite3'') dbFile') (table_info_query table))
        = Inl flt"
    then show ?thesis by (rule execute_fault)
  next
    assume "\<exists>out. execute popen (shl (shl (shl [] ''sqlite3'') dbFile') (table_info_query table))
          = Inr out
        \<and> and_then (call_partial (splitString out [CHR 0x0A]))
             (\<lambda>lines. columns_loop (omitNullStrings lines) []) = Inl flt"
    then obtain out where
      a: "and_then (call_partial (splitString out [CHR 0x0A]))
             (\<lambda>lines. columns_loop (omitNullStrings lines) []) = Inl flt"
      by blast
    from call_partial_splitString [of "[CHR 0x0A]" out] obtain tokens where
      "call_partial (splitString out [CHR 0x0A]) = Inr tokens" by auto
    with a have c: "columns_loop (omitNullStrings tokens) [] = Inl flt" by simp
    from columns_loop_eq [of "omitNullStrings tokens"] obtain split where
      "columns_loop (omitNullStrings tokens) [] =
           (if list_all (\<lambda>parts. 2 \<le> length parts) split
            then Inr ([] @ map (\<lambda>parts. parts ! 1) split)
            else Inl Undefined)"
      by blast
    with c have "flt = Undefined" by (simp split: if_splits)
    then show ?thesis by (simp add: engine_fault_def)
  qed
qed

lemma getTableRecords_fault:
  assumes "getTableRecords popen dbFile' table = Inl flt"
  shows "engine_fault popen flt"
proof -
  from assms have
    "and_then (execute popen (shl (shl (shl [] ''sqlite3'') dbFile') (select_query table)))
      (\<lambda>out. and_then (call_partial (splitString out [CHR 0x0A]))
         (\<lambda>lines. records_loop lines [])) = Inl flt"
    by (simp add: getTableRecords_def)
  from and_then_fault [OF this] show ?thesis
  proof
    assume "execute popen (shl (shl (shl [] ''sqlite3'') dbFile') (select_query table))
        = Inl flt"
    then show ?thesis by (rule execute_fault)
  next
    assume "\<exists>out. execute popen (shl (shl (shl [] ''sqlite3'') dbFile') (select_query table))
          = Inr out
        \<and> and_then (call_partial (splitString out [CHR 0x0A]))
             (\<lambda>lines. records_loop lines []) = Inl flt"
    then obtain out where
      a: "and_then (call_partial (splitString out [CHR 0x0A]))
             (\<lambda>lines. records_loop lines []) = Inl flt"
      by blast
    from call_partial_splitString [of "[CHR 0x0A]" out] obtain tokens where
      "call_partial (splitString out [CHR 0x0A]) = Inr tokens" by auto
    with a have c: "records_loop tokens [] = Inl flt" by simp
    from records_loop_eq [of tokens] obtain split where
      "records_loop tokens [] =
           Inr ([] @ filter (\<lambda>record. \<not> (length record = 0
                                   \<or> list_all (\<lambda>field. field = []) record)) split)"
      by blast
    with c show ?thesis by simp
  qed
qed

text \<open>
  The loop over the tables keeps the invariant, and when it does not return, the
  outcome is undefined behaviour or a command that never finishes: it throws nothing.
\<close>

lemma tables_json_inv:
  assumes "document_inv popen stod dbFile' json"
  shows "(\<forall>json'. tables_json popen stod dbFile' tables json = Inr json'
            \<longrightarrow> document_inv popen stod dbFile' json')
       \<and> (\<forall>flt. tables_json popen stod dbFile' tables json = Inl flt
            \<longrightarrow> engine_fault popen flt)"
  using assms
proof (induction tables arbitrary: json)
  case Nil
  then show ?case by simp
next
  case (Cons table tables)
  from table_step [OF Cons.prems, of table] obtain members1 where
    s: "subscript json table = Inr (Object members1)"
    and m: "table_inv popen stod dbFile' table (member (Object members1) table)"
    and st: "\<And>tableJson. table_inv popen stod dbFile' table tableJson \<Longrightarrow>
           document_inv popen stod dbFile' (store (Object members1) table tableJson)"
    by blast
  show ?case
  proof (cases "getTableColumns popen dbFile' table")
    case (Inl flt')
    with s getTableColumns_fault [OF Inl] show ?thesis by simp
  next
    case c: (Inr columns)
    show ?thesis
    proof (cases "getTableRecords popen dbFile' table")
      case (Inl flt')
      with s c getTableRecords_fault [OF Inl] show ?thesis by simp
    next
      case r: (Inr records)
      show ?thesis
      proof (cases "records_json stod columns records (member (Object members1) table)")
        case (Inl flt')
        from m have "member (Object members1) table = Null
            \<or> (\<exists>elements. member (Object members1) table = Array elements)"
          by (auto simp: table_inv_def)
        from records_json_fault [OF this Inl] have "engine_fault popen flt'"
          by (simp add: engine_fault_def)
        with s c r Inl show ?thesis by simp
      next
        case (Inr tableJson)
        have "set records \<subseteq> set records" by simp
        from records_json_inv [OF c r this m Inr]
        have "table_inv popen stod dbFile' table tableJson" .
        from Cons.IH [OF st [OF this]] s c r Inr show ?thesis by simp
      qed
    qed
  qed
qed

lemma document_result:
  assumes "document popen stod dbFile' = Inr json"
  shows "document_inv popen stod dbFile' json"
proof -
  from assms have "and_then (getTables popen dbFile')
      (\<lambda>tables. tables_json popen stod dbFile' tables Null) = Inr json"
    by (simp add: document_def)
  from and_then_result [OF this] obtain tables where
    t: "tables_json popen stod dbFile' tables Null = Inr json" by blast
  have "document_inv popen stod dbFile' Null" by (simp add: document_inv_def)
  from tables_json_inv [OF this, of tables] t show ?thesis by simp
qed

lemma document_fault:
  assumes "document popen stod dbFile' = Inl flt"
  shows "engine_fault popen flt"
proof -
  from assms have "and_then (getTables popen dbFile')
      (\<lambda>tables. tables_json popen stod dbFile' tables Null) = Inl flt"
    by (simp add: document_def)
  from and_then_fault [OF this] show ?thesis
  proof
    assume "getTables popen dbFile' = Inl flt"
    then show ?thesis by (rule getTables_fault)
  next
    assume "\<exists>tables. getTables popen dbFile' = Inr tables
        \<and> tables_json popen stod dbFile' tables Null = Inl flt"
    then obtain tables where
      t: "tables_json popen stod dbFile' tables Null = Inl flt" by blast
    have "document_inv popen stod dbFile' Null" by (simp add: document_inv_def)
    from tables_json_inv [OF this, of tables] t show ?thesis by simp
  qed
qed

lemma serialize_result:
  assumes "serialize popen stod dump can_open dbFile' outputPath w = (Inr (), w')"
  shows "\<exists>json text. document popen stod dbFile' = Inr json \<and> dump json = Inr text
           \<and> w' = (if can_open outputPath then w\<lparr>files := (files w)(outputPath \<mapsto> text)\<rparr>
                   else w)"
  using assms
  by (auto simp: serialize_def Let_def split: sum.splits if_splits)

text \<open>
  C6, as the code has it. Take a run of \<^verbatim>\<open>serialize\<close> that returns, with an output file
  that could be opened: the file holds the text of the document. The document is null
  or an object, and what it holds under a key is null or an array. Every object in the
  array the document holds under a table's name comes from one record of that table,
  the record has no more fields than the table has column names, and for every field
  of the record:
  \<^item> the field's column name is a key of the object, whether the field is empty or not;
  \<^item> the value under that key is null exactly when every field of the record that goes
    with this same column name is empty;
  \<^item> so a null value means that the field is empty, always;
  \<^item> and when the column names that go with the fields of the record are pairwise
    distinct, the value is null exactly when the field is empty.
\<close>

theorem null_iff_empty_field:
  assumes "serialize popen stod dump can_open dbFile' outputPath w = (Inr (), w')"
    and "can_open outputPath"
  shows "\<exists>json text. document popen stod dbFile' = Inr json \<and> dump json = Inr text
           \<and> files w' outputPath = Some text
           \<and> (json = Null \<or> (\<exists>members. json = Object members))
           \<and> (\<forall>table t. lookup json table = Some t \<longrightarrow>
                 t = Null \<or> (\<exists>emitted. t = Array emitted))
           \<and> (\<forall>table emitted recordJson.
                 lookup json table = Some (Array emitted) \<and> recordJson \<in> set emitted \<longrightarrow>
                 (\<exists>columns records row.
                    getTableColumns popen dbFile' table = Inr columns
                  \<and> getTableRecords popen dbFile' table = Inr records
                  \<and> row \<in> set records
                  \<and> fields_loop stod columns row 0 Null = Inr recordJson
                  \<and> length row \<le> length columns
                  \<and> (\<forall>i<length row.
                        (\<exists>v. lookup recordJson (columns ! i) = Some v)
                      \<and> (lookup recordJson (columns ! i) = Some Null \<longleftrightarrow>
                           (\<forall>n<length row. columns ! n = columns ! i \<longrightarrow> row ! n = []))
                      \<and> (lookup recordJson (columns ! i) = Some Null \<longrightarrow> row ! i = [])
                      \<and> (distinct (take (length row) columns) \<longrightarrow>
                           (lookup recordJson (columns ! i) = Some Null \<longleftrightarrow> row ! i = [])))))"
proof -
  from serialize_result [OF assms(1)] assms(2) obtain json written where
    d: "document popen stod dbFile' = Inr json"
    and t: "dump json = Inr written"
    and w': "w' = w\<lparr>files := (files w)(outputPath \<mapsto> written)\<rparr>"
    by auto
  from w' have f: "files w' outputPath = Some written" by simp
  have r: "\<exists>columns records row.
        getTableColumns popen dbFile' table = Inr columns
      \<and> getTableRecords popen dbFile' table = Inr records
      \<and> row \<in> set records
      \<and> fields_loop stod columns row 0 Null = Inr recordJson
      \<and> length row \<le> length columns
      \<and> (\<forall>i<length row.
            (\<exists>v. lookup recordJson (columns ! i) = Some v)
          \<and> (lookup recordJson (columns ! i) = Some Null \<longleftrightarrow>
               (\<forall>n<length row. columns ! n = columns ! i \<longrightarrow> row ! n = []))
          \<and> (lookup recordJson (columns ! i) = Some Null \<longrightarrow> row ! i = [])
          \<and> (distinct (take (length row) columns) \<longrightarrow>
               (lookup recordJson (columns ! i) = Some Null \<longleftrightarrow> row ! i = [])))"
    if l: "lookup json table = Some (Array emitted)" and e: "recordJson \<in> set emitted"
    for table emitted recordJson
  proof -
    from document_result [OF d] l have "table_inv popen stod dbFile' table (Array emitted)"
      by (cases json) (auto simp: document_inv_def)
    with e have "emitted_by popen stod dbFile' table recordJson"
      by (auto simp: table_inv_def)
    then obtain columns records row where
      c: "getTableColumns popen dbFile' table = Inr columns"
      and g: "getTableRecords popen dbFile' table = Inr records"
      and m: "row \<in> set records"
      and o: "fields_loop stod columns row 0 Null = Inr recordJson"
      by (auto simp: emitted_by_def)
    have len: "length row \<le> length columns"
    proof (cases "row = []")
      case True
      then show ?thesis by simp
    next
      case False
      then have "length row - 1 < length row" by simp
      from record_object(1) [OF o this] show ?thesis by simp
    qed
    have each: "(\<exists>v. lookup recordJson (columns ! i) = Some v)
          \<and> (lookup recordJson (columns ! i) = Some Null \<longleftrightarrow>
               (\<forall>n<length row. columns ! n = columns ! i \<longrightarrow> row ! n = []))
          \<and> (lookup recordJson (columns ! i) = Some Null \<longrightarrow> row ! i = [])
          \<and> (distinct (take (length row) columns) \<longrightarrow>
               (lookup recordJson (columns ! i) = Some Null \<longleftrightarrow> row ! i = []))"
      if i: "i < length row" for i
    proof -
      note p = record_object(2) [OF o i]
      note q = record_object(3) [OF o i]
      from q i have n: "lookup recordJson (columns ! i) = Some Null \<longrightarrow> row ! i = []"
        by simp
      have dist: "lookup recordJson (columns ! i) = Some Null \<longleftrightarrow> row ! i = []"
        if "distinct (take (length row) columns)"
      proof -
        have "n = i" if "n < length row" and "columns ! n = columns ! i" for n
        proof (rule ccontr)
          assume "n \<noteq> i"
          moreover from that(1) len have "n < length columns" by simp
          moreover from i len have "i < length columns" by simp
          ultimately have "columns ! n \<noteq> columns ! i"
            using distinct_take_nth [OF \<open>distinct (take (length row) columns)\<close> that(1) i]
            by simp
          with that(2) show False by simp
        qed
        with i have "(\<forall>n<length row. columns ! n = columns ! i \<longrightarrow> row ! n = [])
            \<longleftrightarrow> row ! i = []"
          by auto
        with q show ?thesis by simp
      qed
      from p q n dist show ?thesis by blast
    qed
    from c g m o len each show ?thesis by blast
  qed
  from document_result [OF d] have shape: "json = Null \<or> (\<exists>members. json = Object members)"
    by (auto simp: document_inv_def)
  from document_result [OF d]
  have arrays: "\<forall>table t. lookup json table = Some t \<longrightarrow>
      t = Null \<or> (\<exists>emitted. t = Array emitted)"
    by (cases json) (auto simp: document_inv_def table_inv_def)
  from d t f shape arrays r show ?thesis by blast
qed

theorem null_iff_empty_field_witness:
  "serialize
        (\<lambda>cmd.
           if cmd = ''sqlite3 '' @ Database ''test.db'' @ '' .tables'' then Output ''people\<newline>''
           else if cmd = ''sqlite3 '' @ Database ''test.db'' @ '' '' @ table_info_query ''people''
           then Output ''0|id|INTEGER|0||1\<newline>1|name|TEXT|0||0\<newline>2|age|INTEGER|0||0\<newline>''
           else if cmd = ''sqlite3 '' @ Database ''test.db'' @ '' '' @ select_query ''people''
           then Output ''1|Alice|30\<newline>2|Bob|\<newline>''
           else Output [])
        (\<lambda>s. Inl (Invalid_argument ''stod'') :: exn + unit) (\<lambda>j. Inr ''text of the document'') (\<lambda>path. path = ''test.json'')
        (Database ''test.db'') ''test.json'' \<lparr>files = Map.empty, cerr = []\<rparr>
      = (Inr (), \<lparr>files = [''test.json'' \<mapsto> ''text of the document''], cerr = []\<rparr>)
   \<and> (\<lambda>path. path = ''test.json'') ''test.json''
   \<and> document
        (\<lambda>cmd.
           if cmd = ''sqlite3 '' @ Database ''test.db'' @ '' .tables'' then Output ''people\<newline>''
           else if cmd = ''sqlite3 '' @ Database ''test.db'' @ '' '' @ table_info_query ''people''
           then Output ''0|id|INTEGER|0||1\<newline>1|name|TEXT|0||0\<newline>2|age|INTEGER|0||0\<newline>''
           else if cmd = ''sqlite3 '' @ Database ''test.db'' @ '' '' @ select_query ''people''
           then Output ''1|Alice|30\<newline>2|Bob|\<newline>''
           else Output [])
        (\<lambda>s. Inl (Invalid_argument ''stod'') :: exn + unit) (Database ''test.db'')
      = Inr (Object [(''people'', Array
          [Object [(''id'', Number_integer 1), (''name'', String ''Alice''), (''age'', Number_integer 30)],
           Object [(''id'', Number_integer 2), (''name'', String ''Bob''), (''age'', Null)]])])
   \<and> getTableColumns
        (\<lambda>cmd.
           if cmd = ''sqlite3 '' @ Database ''test.db'' @ '' .tables'' then Output ''people\<newline>''
           else if cmd = ''sqlite3 '' @ Database ''test.db'' @ '' '' @ table_info_query ''people''
           then Output ''0|id|INTEGER|0||1\<newline>1|name|TEXT|0||0\<newline>2|age|INTEGER|0||0\<newline>''
           else if cmd = ''sqlite3 '' @ Database ''test.db'' @ '' '' @ select_query ''people''
           then Output ''1|Alice|30\<newline>2|Bob|\<newline>''
           else Output [])
        (Database ''test.db'') ''people'' = Inr [''id'', ''name'', ''age'']
   \<and> getTableRecords
        (\<lambda>cmd.
           if cmd = ''sqlite3 '' @ Database ''test.db'' @ '' .tables'' then Output ''people\<newline>''
           else if cmd = ''sqlite3 '' @ Database ''test.db'' @ '' '' @ table_info_query ''people''
           then Output ''0|id|INTEGER|0||1\<newline>1|name|TEXT|0||0\<newline>2|age|INTEGER|0||0\<newline>''
           else if cmd = ''sqlite3 '' @ Database ''test.db'' @ '' '' @ select_query ''people''
           then Output ''1|Alice|30\<newline>2|Bob|\<newline>''
           else Output [])
        (Database ''test.db'') ''people'' = Inr [[''1'', ''Alice'', ''30''], [''2'', ''Bob'', []]]
   \<and> lookup (Object [(''id'', Number_integer 2), (''name'', String ''Bob''), (''age'', Null)] :: unit json) ([''id'', ''name'', ''age''] ! 2) = Some Null
   \<and> [''2'', ''Bob'', []] ! 2 = ([] :: string)
   \<and> lookup (Object [(''id'', Number_integer 2), (''name'', String ''Bob''), (''age'', Null)] :: unit json) ([''id'', ''name'', ''age''] ! 1) = Some (String ''Bob'')"
proof -
  have d: "document
        (\<lambda>cmd.
           if cmd = ''sqlite3 '' @ Database ''test.db'' @ '' .tables'' then Output ''people\<newline>''
           else if cmd = ''sqlite3 '' @ Database ''test.db'' @ '' '' @ table_info_query ''people''
           then Output ''0|id|INTEGER|0||1\<newline>1|name|TEXT|0||0\<newline>2|age|INTEGER|0||0\<newline>''
           else if cmd = ''sqlite3 '' @ Database ''test.db'' @ '' '' @ select_query ''people''
           then Output ''1|Alice|30\<newline>2|Bob|\<newline>''
           else Output [])
        (\<lambda>s. Inl (Invalid_argument ''stod'') :: exn + unit) (Database ''test.db'')
      = Inr (Object [(''people'', Array
          [Object [(''id'', Number_integer 1), (''name'', String ''Alice''), (''age'', Number_integer 30)],
           Object [(''id'', Number_integer 2), (''name'', String ''Bob''), (''age'', Null)]])])"
    by code_simp
  have c: "getTableColumns
        (\<lambda>cmd.
           if cmd = ''sqlite3 '' @ Database ''test.db'' @ '' .tables'' then Output ''people\<newline>''
           else if cmd = ''sqlite3 '' @ Database ''test.db'' @ '' '' @ table_info_query ''people''
           then Output ''0|id|INTEGER|0||1\<newline>1|name|TEXT|0||0\<newline>2|age|INTEGER|0||0\<newline>''
           else if cmd = ''sqlite3 '' @ Database ''test.db'' @ '' '' @ select_query ''people''
           then Output ''1|Alice|30\<newline>2|Bob|\<newline>''
           else Output [])
        (Database ''test.db'') ''people'' = Inr [''id'', ''name'', ''age'']"
    by code_simp
  have r: "getTableRecords
        (\<lambda>cmd.
           if cmd = ''sqlite3 '' @ Database ''test.db'' @ '' .tables'' then Output ''people\<newline>''
           else if cmd = ''sqlite3 '' @ Database ''test.db'' @ '' '' @ table_info_query ''people''
           then Output ''0|id|INTEGER|0||1\<newline>1|name|TEXT|0||0\<newline>2|age|INTEGER|0||0\<newline>''
           else if cmd = ''sqlite3 '' @ Database ''test.db'' @ '' '' @ select_query ''people''
           then Output ''1|Alice|30\<newline>2|Bob|\<newline>''
           else Output [])
        (Database ''test.db'') ''people'' = Inr [[''1'', ''Alice'', ''30''], [''2'', ''Bob'', []]]"
    by code_simp
  have "serialize engine (\<lambda>s. Inl (Invalid_argument ''stod'') :: exn + unit) (\<lambda>j. Inr ''text of the document'') (\<lambda>path. path = ''test.json'')
        (Database ''test.db'') ''test.json'' \<lparr>files = Map.empty, cerr = []\<rparr>
      = (Inr (), \<lparr>files = [''test.json'' \<mapsto> ''text of the document''], cerr = []\<rparr>)"
    if "document engine (\<lambda>s. Inl (Invalid_argument ''stod'') :: exn + unit) (Database ''test.db'')
      = Inr (Object [(''people'', Array
          [Object [(''id'', Number_integer 1), (''name'', String ''Alice''), (''age'', Number_integer 30)],
           Object [(''id'', Number_integer 2), (''name'', String ''Bob''), (''age'', Null)]])])"
    for engine
    using that by (simp add: serialize_def)
  from this [OF d]
  have s: "serialize
        (\<lambda>cmd.
           if cmd = ''sqlite3 '' @ Database ''test.db'' @ '' .tables'' then Output ''people\<newline>''
           else if cmd = ''sqlite3 '' @ Database ''test.db'' @ '' '' @ table_info_query ''people''
           then Output ''0|id|INTEGER|0||1\<newline>1|name|TEXT|0||0\<newline>2|age|INTEGER|0||0\<newline>''
           else if cmd = ''sqlite3 '' @ Database ''test.db'' @ '' '' @ select_query ''people''
           then Output ''1|Alice|30\<newline>2|Bob|\<newline>''
           else Output [])
        (\<lambda>s. Inl (Invalid_argument ''stod'') :: exn + unit) (\<lambda>j. Inr ''text of the document'') (\<lambda>path. path = ''test.json'')
        (Database ''test.db'') ''test.json'' \<lparr>files = Map.empty, cerr = []\<rparr>
      = (Inr (), \<lparr>files = [''test.json'' \<mapsto> ''text of the document''], cerr = []\<rparr>)" .
  have o: "(\<lambda>path. path = ''test.json'') ''test.json''" by simp
  from null_iff_empty_field [OF s o] d
  have "\<exists>written. (\<lambda>j. Inr ''text of the document'')
      (Object [(''people'', Array
          [Object [(''id'', Number_integer 1), (''name'', String ''Alice''), (''age'', Number_integer 30)],
           Object [(''id'', Number_integer 2), (''name'', String ''Bob''), (''age'', Null)] :: unit json])]) = Inr written"
    by auto
  with s d c r show ?thesis by simp
qed

text \<open>
  The claim as the specification states it fails when two columns get the same name:
  \<^verbatim>\<open>recordJson[column];\<close> leaves the value an earlier field stored under the key. The
  describe-table lines \<^verbatim>\<open>0|k|x|INT|0||0\<close> and \<^verbatim>\<open>1|k|y|INT|0||0\<close> (columns named
  \<^verbatim>\<open>k|x\<close> and \<^verbatim>\<open>k|y\<close>) give the column names \<^verbatim>\<open>k\<close> and \<^verbatim>\<open>k\<close>; the row \<^verbatim>\<open>1|\<close> then has
  an empty second field, and the one record of the document is \<^verbatim>\<open>{"k": 1}\<close>: the value
  under the key of the empty field is 1, not null.
\<close>

theorem null_iff_empty_field_counterexample:
  "document
        (\<lambda>cmd.
           if cmd = ''sqlite3 '' @ Database ''t.db'' @ '' .tables'' then Output ''t\<newline>''
           else if cmd = ''sqlite3 '' @ Database ''t.db'' @ '' '' @ table_info_query ''t''
           then Output ''0|k|x|INT|0||0\<newline>1|k|y|INT|0||0\<newline>''
           else if cmd = ''sqlite3 '' @ Database ''t.db'' @ '' '' @ select_query ''t''
           then Output ''1|\<newline>''
           else Output [])
        (\<lambda>s. Inl (Invalid_argument ''stod'') :: exn + unit) (Database ''t.db'')
      = Inr (Object [(''t'', Array [Object [(''k'', Number_integer 1)]])])
   \<and> getTableColumns
        (\<lambda>cmd.
           if cmd = ''sqlite3 '' @ Database ''t.db'' @ '' .tables'' then Output ''t\<newline>''
           else if cmd = ''sqlite3 '' @ Database ''t.db'' @ '' '' @ table_info_query ''t''
           then Output ''0|k|x|INT|0||0\<newline>1|k|y|INT|0||0\<newline>''
           else if cmd = ''sqlite3 '' @ Database ''t.db'' @ '' '' @ select_query ''t''
           then Output ''1|\<newline>''
           else Output [])
        (Database ''t.db'') ''t'' = Inr [''k'', ''k'']
   \<and> getTableRecords
        (\<lambda>cmd.
           if cmd = ''sqlite3 '' @ Database ''t.db'' @ '' .tables'' then Output ''t\<newline>''
           else if cmd = ''sqlite3 '' @ Database ''t.db'' @ '' '' @ table_info_query ''t''
           then Output ''0|k|x|INT|0||0\<newline>1|k|y|INT|0||0\<newline>''
           else if cmd = ''sqlite3 '' @ Database ''t.db'' @ '' '' @ select_query ''t''
           then Output ''1|\<newline>''
           else Output [])
        (Database ''t.db'') ''t'' = Inr [[''1'', []]]
   \<and> fields_loop (\<lambda>s. Inl (Invalid_argument ''stod'') :: exn + unit) [''k'', ''k''] [''1'', []] 0 Null
      = Inr (Object [(''k'', Number_integer 1)])
   \<and> [''1'', []] ! 1 = ([] :: string)
   \<and> lookup (Object [(''k'', Number_integer 1)] :: unit json) ([''k'', ''k''] ! 1) = Some (Number_integer 1)
   \<and> Number_integer 1 \<noteq> (Null :: unit json)"
proof -
  have f0: "document
        (\<lambda>cmd.
           if cmd = ''sqlite3 '' @ Database ''t.db'' @ '' .tables'' then Output ''t\<newline>''
           else if cmd = ''sqlite3 '' @ Database ''t.db'' @ '' '' @ table_info_query ''t''
           then Output ''0|k|x|INT|0||0\<newline>1|k|y|INT|0||0\<newline>''
           else if cmd = ''sqlite3 '' @ Database ''t.db'' @ '' '' @ select_query ''t''
           then Output ''1|\<newline>''
           else Output [])
        (\<lambda>s. Inl (Invalid_argument ''stod'') :: exn + unit) (Database ''t.db'')
      = Inr (Object [(''t'', Array [Object [(''k'', Number_integer 1)]])])"
    by code_simp
  have f1: "getTableColumns
        (\<lambda>cmd.
           if cmd = ''sqlite3 '' @ Database ''t.db'' @ '' .tables'' then Output ''t\<newline>''
           else if cmd = ''sqlite3 '' @ Database ''t.db'' @ '' '' @ table_info_query ''t''
           then Output ''0|k|x|INT|0||0\<newline>1|k|y|INT|0||0\<newline>''
           else if cmd = ''sqlite3 '' @ Database ''t.db'' @ '' '' @ select_query ''t''
           then Output ''1|\<newline>''
           else Output [])
        (Database ''t.db'') ''t'' = Inr [''k'', ''k'']"
    by code_simp
  have f2: "getTableRecords
        (\<lambda>cmd.
           if cmd = ''sqlite3 '' @ Database ''t.db'' @ '' .tables'' then Output ''t\<newline>''
           else if cmd = ''sqlite3 '' @ Database ''t.db'' @ '' '' @ table_info_query ''t''
           then Output ''0|k|x|INT|0||0\<newline>1|k|y|INT|0||0\<newline>''
           else if cmd = ''sqlite3 '' @ Database ''t.db'' @ '' '' @ select_query ''t''
           then Output ''1|\<newline>''
           else Output [])
        (Database ''t.db'') ''t'' = Inr [[''1'', []]]"
    by code_simp
  have f3: "fields_loop (\<lambda>s. Inl (Invalid_argument ''stod'') :: exn + unit) [''k'', ''k''] [''1'', []] 0 Null
      = Inr (Object [(''k'', Number_integer 1)])"
    by code_simp
  have f4: "[''1'', []] ! 1 = ([] :: string)"
    by simp
  have f5: "lookup (Object [(''k'', Number_integer 1)] :: unit json) ([''k'', ''k''] ! 1) = Some (Number_integer 1)"
    by simp
  have f6: "Number_integer 1 \<noteq> (Null :: unit json)"
    by simp
  from f0 f1 f2 f3 f4 f5 f6 show ?thesis by simp
qed


section \<open>What \<^verbatim>\<open>main\<close> returns\<close>

lemma main_one_argument:
  assumes "length argv = 2"
  shows "main popen stod dump can_open argv w =
     (case serialize popen stod dump can_open (Database (argv ! 1))
             (takeWhile (\<lambda>c. c \<noteq> CHR ''.'') (argv ! 1) @ ''.json'') w of
        (Inr u, w') \<Rightarrow> Inr (0, w')
      | (Inl (Throw e), w') \<Rightarrow> Inr (0, w'\<lparr>cerr := cerr w' @ [what e]\<rparr>)
      | (Inl Undefined, w') \<Rightarrow> Inl Undefined
      | (Inl Diverge, w') \<Rightarrow> Inl Diverge)"
  using assms by (simp add: main_def jsonPath_eq call_def Let_def)

text \<open>
  C4, as the code has it. With no argument, \<^verbatim>\<open>main\<close> writes the line
  \<^verbatim>\<open>Provide a database file to dump\<close> to the error stream and returns \<open>-1\<close>; with more
  than one argument (or with not even \<^verbatim>\<open>argv[0]\<close>) the line is
  \<^verbatim>\<open>Invalid utilisation : dump-db-to-json.exe path-to-db-file.db\<close>; in both cases the
  files are as they were. With exactly one argument, the output path being the
  argument up to its first dot followed by \<^verbatim>\<open>.json\<close>:
  \<^item> when the document is built and its text produced, \<^verbatim>\<open>main\<close> returns 0, and the
    output file holds the text if it could be opened (no file is written otherwise);
  \<^item> when the document is built and \<^verbatim>\<open>dump\<close> throws, the exception is caught: \<^verbatim>\<open>main\<close>
    writes its message to the error stream and returns 0, and the output file, if it
    could be opened, is left empty;
  \<^item> otherwise \<^verbatim>\<open>main\<close> does not return: building the document throws nothing, it
    ends in undefined behaviour (an index beyond the end of a vector, a pipe that
    could not be opened) or waits for ever for a command that never finishes.
\<close>

theorem main_exit_status:
  "(length argv = 1 \<longrightarrow>
      main popen stod dump can_open argv w =
        Inr (- 1, w\<lparr>cerr := cerr w @ [''Provide a database file to dump'']\<rparr>))
   \<and> (length argv \<noteq> 1 \<and> length argv \<noteq> 2 \<longrightarrow>
        main popen stod dump can_open argv w =
          Inr (- 1, w\<lparr>cerr := cerr w @
                 [''Invalid utilisation : dump-db-to-json.exe path-to-db-file.db'']\<rparr>))
   \<and> (length argv = 2 \<longrightarrow>
        (let outputPath = takeWhile (\<lambda>c. c \<noteq> CHR ''.'') (argv ! 1) @ ''.json'' in
         case document popen stod (Database (argv ! 1)) of
           Inr json \<Rightarrow>
             (case dump json of
                Inr text \<Rightarrow>
                  main popen stod dump can_open argv w =
                    Inr (0, if can_open outputPath
                            then w\<lparr>files := (files w)(outputPath \<mapsto> text)\<rparr> else w)
              | Inl e \<Rightarrow>
                  main popen stod dump can_open argv w =
                    Inr (0, if can_open outputPath
                            then w\<lparr>files := (files w)(outputPath \<mapsto> []),
                                   cerr := cerr w @ [what e]\<rparr>
                            else w\<lparr>cerr := cerr w @ [what e]\<rparr>))
         | Inl flt \<Rightarrow>
             main popen stod dump can_open argv w = Inl flt
             \<and> (flt = Undefined \<or> flt = Diverge \<and> (\<exists>cmd. popen cmd = Hangs))))"
proof -
  have 1: "length argv = 1 \<longrightarrow>
      main popen stod dump can_open argv w =
        Inr (- 1, w\<lparr>cerr := cerr w @ [''Provide a database file to dump'']\<rparr>)"
    by (simp add: main_def)
  have 2: "length argv \<noteq> 1 \<and> length argv \<noteq> 2 \<longrightarrow>
        main popen stod dump can_open argv w =
          Inr (- 1, w\<lparr>cerr := cerr w @
                 [''Invalid utilisation : dump-db-to-json.exe path-to-db-file.db'']\<rparr>)"
    by (simp add: main_def)
  have 3: "let outputPath = takeWhile (\<lambda>c. c \<noteq> CHR ''.'') (argv ! 1) @ ''.json'' in
         case document popen stod (Database (argv ! 1)) of
           Inr json \<Rightarrow>
             (case dump json of
                Inr text \<Rightarrow>
                  main popen stod dump can_open argv w =
                    Inr (0, if can_open outputPath
                            then w\<lparr>files := (files w)(outputPath \<mapsto> text)\<rparr> else w)
              | Inl e \<Rightarrow>
                  main popen stod dump can_open argv w =
                    Inr (0, if can_open outputPath
                            then w\<lparr>files := (files w)(outputPath \<mapsto> []),
                                   cerr := cerr w @ [what e]\<rparr>
                            else w\<lparr>cerr := cerr w @ [what e]\<rparr>))
         | Inl flt \<Rightarrow>
             main popen stod dump can_open argv w = Inl flt
             \<and> (flt = Undefined \<or> flt = Diverge \<and> (\<exists>cmd. popen cmd = Hangs))"
    if len: "length argv = 2"
  proof (cases "document popen stod (Database (argv ! 1))")
    case (Inl flt)
    from document_fault [OF Inl] have
      f: "flt = Undefined \<or> flt = Diverge \<and> (\<exists>cmd. popen cmd = Hangs)"
      by (simp add: engine_fault_def)
    have "serialize popen stod dump can_open (Database (argv ! 1))
             (takeWhile (\<lambda>c. c \<noteq> CHR ''.'') (argv ! 1) @ ''.json'') w = (Inl flt, w)"
      by (simp add: serialize_def Inl del: One_nat_def)
    with f have "main popen stod dump can_open argv w = Inl flt"
      by (auto simp: main_one_argument [OF len] simp del: One_nat_def)
    with f Inl show ?thesis by (simp add: Let_def del: One_nat_def)
  next
    case (Inr json)
    show ?thesis
    proof (cases "dump json")
      case e: (Inl e)
      show ?thesis
        by (simp add: main_one_argument [OF len] serialize_def Inr e Let_def
              del: One_nat_def)
    next
      case t: (Inr written)
      show ?thesis
        by (simp add: main_one_argument [OF len] serialize_def Inr t Let_def
              del: One_nat_def)
    qed
  qed
  from 1 2 3 show ?thesis by blast
qed

theorem main_exit_status_witness:
  "length [''dump''] = (1 :: nat)
   \<and> main (\<lambda>cmd. Failed) (\<lambda>s. Inl (Invalid_argument ''stod'') :: exn + unit) (\<lambda>j. Inr ''text of the document'') (\<lambda>path. True) [''dump''] \<lparr>files = Map.empty, cerr = []\<rparr>
      = Inr (- 1, \<lparr>files = Map.empty, cerr = [''Provide a database file to dump'']\<rparr>)
   \<and> length [''dump'', ''a.db'', ''b.db''] \<noteq> (1 :: nat) \<and> length [''dump'', ''a.db'', ''b.db''] \<noteq> (2 :: nat)
   \<and> main (\<lambda>cmd. Failed) (\<lambda>s. Inl (Invalid_argument ''stod'') :: exn + unit) (\<lambda>j. Inr ''text of the document'') (\<lambda>path. True) [''dump'', ''a.db'', ''b.db''] \<lparr>files = Map.empty, cerr = []\<rparr>
      = Inr (- 1, \<lparr>files = Map.empty,
           cerr = [''Invalid utilisation : dump-db-to-json.exe path-to-db-file.db'']\<rparr>)
   \<and> length [''dump'', ''test.db''] = (2 :: nat)
   \<and> document
        (\<lambda>cmd.
           if cmd = ''sqlite3 '' @ Database ''test.db'' @ '' .tables'' then Output ''people\<newline>''
           else if cmd = ''sqlite3 '' @ Database ''test.db'' @ '' '' @ table_info_query ''people''
           then Output ''0|id|INTEGER|0||1\<newline>1|name|TEXT|0||0\<newline>2|age|INTEGER|0||0\<newline>''
           else if cmd = ''sqlite3 '' @ Database ''test.db'' @ '' '' @ select_query ''people''
           then Output ''1|Alice|30\<newline>2|Bob|\<newline>''
           else Output [])
        (\<lambda>s. Inl (Invalid_argument ''stod'') :: exn + unit) (Database ''test.db'')
      = Inr (Object [(''people'', Array
          [Object [(''id'', Number_integer 1), (''name'', String ''Alice''), (''age'', Number_integer 30)],
           Object [(''id'', Number_integer 2), (''name'', String ''Bob''), (''age'', Null)]])])
   \<and> main
        (\<lambda>cmd.
           if cmd = ''sqlite3 '' @ Database ''test.db'' @ '' .tables'' then Output ''people\<newline>''
           else if cmd = ''sqlite3 '' @ Database ''test.db'' @ '' '' @ table_info_query ''people''
           then Output ''0|id|INTEGER|0||1\<newline>1|name|TEXT|0||0\<newline>2|age|INTEGER|0||0\<newline>''
           else if cmd = ''sqlite3 '' @ Database ''test.db'' @ '' '' @ select_query ''people''
           then Output ''1|Alice|30\<newline>2|Bob|\<newline>''
           else Output [])
        (\<lambda>s. Inl (Invalid_argument ''stod'') :: exn + unit) (\<lambda>j. Inr ''text of the document'') (\<lambda>path. True)
        [''dump'', ''test.db''] \<lparr>files = Map.empty, cerr = []\<rparr>
      = Inr (0, \<lparr>files = [''test.json'' \<mapsto> ''text of the document''], cerr = []\<rparr>)
   \<and> main
        (\<lambda>cmd.
           if cmd = ''sqlite3 '' @ Database ''test.db'' @ '' .tables'' then Output ''people\<newline>''
           else if cmd = ''sqlite3 '' @ Database ''test.db'' @ '' '' @ table_info_query ''people''
           then Output ''0|id|INTEGER|0||1\<newline>1|name|TEXT|0||0\<newline>2|age|INTEGER|0||0\<newline>''
           else if cmd = ''sqlite3 '' @ Database ''test.db'' @ '' '' @ select_query ''people''
           then Output ''1|Alice|30\<newline>2|Bob|\<newline>''
           else Output [])
        (\<lambda>s. Inl (Invalid_argument ''stod'') :: exn + unit) (\<lambda>j. Inl (Type_error ''invalid UTF-8 byte'')) (\<lambda>path. True)
        [''dump'', ''test.db''] \<lparr>files = Map.empty, cerr = []\<rparr>
      = Inr (0, \<lparr>files = [''test.json'' \<mapsto> []], cerr = [''invalid UTF-8 byte'']\<rparr>)
   \<and> main
        (\<lambda>cmd.
           if cmd = ''sqlite3 '' @ Database ''test.db'' @ '' .tables'' then Output ''people\<newline>''
           else if cmd = ''sqlite3 '' @ Database ''test.db'' @ '' '' @ table_info_query ''people''
           then Output ''0|id|INTEGER|0||1\<newline>1|name|TEXT|0||0\<newline>2|age|INTEGER|0||0\<newline>''
           else if cmd = ''sqlite3 '' @ Database ''test.db'' @ '' '' @ select_query ''people''
           then Output ''1|Alice|30\<newline>2|Bob|\<newline>''
           else Output [])
        (\<lambda>s. Inl (Invalid_argument ''stod'') :: exn + unit) (\<lambda>j. Inr ''text of the document'') (\<lambda>path. False)
        [''dump'', ''test.db''] \<lparr>files = Map.empty, cerr = []\<rparr>
      = Inr (0, \<lparr>files = Map.empty, cerr = []\<rparr>)
   \<and> main (\<lambda>cmd. Hangs) (\<lambda>s. Inl (Invalid_argument ''stod'') :: exn + unit) (\<lambda>j. Inr ''text of the document'') (\<lambda>path. True) [''dump'', ''test.db''] \<lparr>files = Map.empty, cerr = []\<rparr> = Inl Diverge"
proof -
  have d: "document
        (\<lambda>cmd.
           if cmd = ''sqlite3 '' @ Database ''test.db'' @ '' .tables'' then Output ''people\<newline>''
           else if cmd = ''sqlite3 '' @ Database ''test.db'' @ '' '' @ table_info_query ''people''
           then Output ''0|id|INTEGER|0||1\<newline>1|name|TEXT|0||0\<newline>2|age|INTEGER|0||0\<newline>''
           else if cmd = ''sqlite3 '' @ Database ''test.db'' @ '' '' @ select_query ''people''
           then Output ''1|Alice|30\<newline>2|Bob|\<newline>''
           else Output [])
        (\<lambda>s. Inl (Invalid_argument ''stod'') :: exn + unit) (Database ''test.db'')
      = Inr (Object [(''people'', Array
          [Object [(''id'', Number_integer 1), (''name'', String ''Alice''), (''age'', Number_integer 30)],
           Object [(''id'', Number_integer 2), (''name'', String ''Bob''), (''age'', Null)]])])"
    by code_simp
  have h: "document (\<lambda>cmd. Hangs) (\<lambda>s. Inl (Invalid_argument ''stod'') :: exn + unit) (Database ''test.db'') = Inl Diverge"
    by code_simp
  have p: "takeWhile (\<lambda>c. c \<noteq> CHR ''.'') ([''dump'', ''test.db''] ! 1) @ ''.json'' = ''test.json''"
    by simp
  from main_exit_status [of "[''dump'']" "\<lambda>cmd. Failed"
      "(\<lambda>s. Inl (Invalid_argument ''stod'') :: exn + unit)"
      "(\<lambda>j. Inr ''text of the document'')"
      "(\<lambda>path. True)" "\<lparr>files = Map.empty, cerr = []\<rparr>"]
  have a: "main (\<lambda>cmd. Failed) (\<lambda>s. Inl (Invalid_argument ''stod'') :: exn + unit) (\<lambda>j. Inr ''text of the document'') (\<lambda>path. True) [''dump''] \<lparr>files = Map.empty, cerr = []\<rparr>
      = Inr (- 1, \<lparr>files = Map.empty, cerr = [''Provide a database file to dump'']\<rparr>)"
    by simp
  from main_exit_status [of "[''dump'', ''a.db'', ''b.db'']" "\<lambda>cmd. Failed"
      "(\<lambda>s. Inl (Invalid_argument ''stod'') :: exn + unit)"
      "(\<lambda>j. Inr ''text of the document'')"
      "(\<lambda>path. True)" "\<lparr>files = Map.empty, cerr = []\<rparr>"]
  have b: "main (\<lambda>cmd. Failed) (\<lambda>s. Inl (Invalid_argument ''stod'') :: exn + unit) (\<lambda>j. Inr ''text of the document'') (\<lambda>path. True) [''dump'', ''a.db'', ''b.db''] \<lparr>files = Map.empty, cerr = []\<rparr>
      = Inr (- 1, \<lparr>files = Map.empty,
           cerr = [''Invalid utilisation : dump-db-to-json.exe path-to-db-file.db'']\<rparr>)"
    by simp
  from main_exit_status [of "[''dump'', ''test.db'']" "\<lambda>cmd.
         if cmd = ''sqlite3 '' @ Database ''test.db'' @ '' .tables'' then Output ''people\<newline>''
         else if cmd = ''sqlite3 '' @ Database ''test.db'' @ '' '' @ table_info_query ''people''
         then Output ''0|id|INTEGER|0||1\<newline>1|name|TEXT|0||0\<newline>2|age|INTEGER|0||0\<newline>''
         else if cmd = ''sqlite3 '' @ Database ''test.db'' @ '' '' @ select_query ''people''
         then Output ''1|Alice|30\<newline>2|Bob|\<newline>''
         else Output []"
      "(\<lambda>s. Inl (Invalid_argument ''stod'') :: exn + unit)"
      "(\<lambda>j. Inr ''text of the document'')"
      "(\<lambda>path. True)" "\<lparr>files = Map.empty, cerr = []\<rparr>"] d p
  have c: "main
        (\<lambda>cmd.
           if cmd = ''sqlite3 '' @ Database ''test.db'' @ '' .tables'' then Output ''people\<newline>''
           else if cmd = ''sqlite3 '' @ Database ''test.db'' @ '' '' @ table_info_query ''people''
           then Output ''0|id|INTEGER|0||1\<newline>1|name|TEXT|0||0\<newline>2|age|INTEGER|0||0\<newline>''
           else if cmd = ''sqlite3 '' @ Database ''test.db'' @ '' '' @ select_query ''people''
           then Output ''1|Alice|30\<newline>2|Bob|\<newline>''
           else Output [])
        (\<lambda>s. Inl (Invalid_argument ''stod'') :: exn + unit) (\<lambda>j. Inr ''text of the document'') (\<lambda>path. True)
        [''dump'', ''test.db''] \<lparr>files = Map.empty, cerr = []\<rparr>
      = Inr (0, \<lparr>files = [''test.json'' \<mapsto> ''text of the document''], cerr = []\<rparr>)"
    by simp
  from main_exit_status [of "[''dump'', ''test.db'']" "\<lambda>cmd.
         if cmd = ''sqlite3 '' @ Database ''test.db'' @ '' .tables'' then Output ''people\<newline>''
         else if cmd = ''sqlite3 '' @ Database ''test.db'' @ '' '' @ table_info_query ''people''
         then Output ''0|id|INTEGER|0||1\<newline>1|name|TEXT|0||0\<newline>2|age|INTEGER|0||0\<newline>''
         else if cmd = ''sqlite3 '' @ Database ''test.db'' @ '' '' @ select_query ''people''
         then Output ''1|Alice|30\<newline>2|Bob|\<newline>''
         else Output []"
      "(\<lambda>s. Inl (Invalid_argument ''stod'') :: exn + unit)"
      "(\<lambda>j. Inl (Type_error ''invalid UTF-8 byte''))"
      "(\<lambda>path. True)" "\<lparr>files = Map.empty, cerr = []\<rparr>"] d p
  have e: "main
        (\<lambda>cmd.
           if cmd = ''sqlite3 '' @ Database ''test.db'' @ '' .tables'' then Output ''people\<newline>''
           else if cmd = ''sqlite3 '' @ Database ''test.db'' @ '' '' @ table_info_query ''people''
           then Output ''0|id|INTEGER|0||1\<newline>1|name|TEXT|0||0\<newline>2|age|INTEGER|0||0\<newline>''
           else if cmd = ''sqlite3 '' @ Database ''test.db'' @ '' '' @ select_query ''people''
           then Output ''1|Alice|30\<newline>2|Bob|\<newline>''
           else Output [])
        (\<lambda>s. Inl (Invalid_argument ''stod'') :: exn + unit) (\<lambda>j. Inl (Type_error ''invalid UTF-8 byte'')) (\<lambda>path. True)
        [''dump'', ''test.db''] \<lparr>files = Map.empty, cerr = []\<rparr>
      = Inr (0, \<lparr>files = [''test.json'' \<mapsto> []], cerr = [''invalid UTF-8 byte'']\<rparr>)"
    by simp
  from main_exit_status [of "[''dump'', ''test.db'']" "\<lambda>cmd.
         if cmd = ''sqlite3 '' @ Database ''test.db'' @ '' .tables'' then Output ''people\<newline>''
         else if cmd = ''sqlite3 '' @ Database ''test.db'' @ '' '' @ table_info_query ''people''
         then Output ''0|id|INTEGER|0||1\<newline>1|name|TEXT|0||0\<newline>2|age|INTEGER|0||0\<newline>''
         else if cmd = ''sqlite3 '' @ Database ''test.db'' @ '' '' @ select_query ''people''
         then Output ''1|Alice|30\<newline>2|Bob|\<newline>''
         else Output []"
      "(\<lambda>s. Inl (Invalid_argument ''stod'') :: exn + unit)"
      "(\<lambda>j. Inr ''text of the document'')"
      "\<lambda>path. False" "\<lparr>files = Map.empty, cerr = []\<rparr>"] d p
  have f: "main
        (\<lambda>cmd.
           if cmd = ''sqlite3 '' @ Database ''test.db'' @ '' .tables'' then Output ''people\<newline>''
           else if cmd = ''sqlite3 '' @ Database ''test.db'' @ '' '' @ table_info_query ''people''
           then Output ''0|id|INTEGER|0||1\<newline>1|name|TEXT|0||0\<newline>2|age|INTEGER|0||0\<newline>''
           else if cmd = ''sqlite3 '' @ Database ''test.db'' @ '' '' @ select_query ''people''
           then Output ''1|Alice|30\<newline>2|Bob|\<newline>''
           else Output [])
        (\<lambda>s. Inl (Invalid_argument ''stod'') :: exn + unit) (\<lambda>j. Inr ''text of the document'') (\<lambda>path. False)
        [''dump'', ''test.db''] \<lparr>files = Map.empty, cerr = []\<rparr>
      = Inr (0, \<lparr>files = Map.empty, cerr = []\<rparr>)"
    by simp
  from main_exit_status [of "[''dump'', ''test.db'']" "\<lambda>cmd. Hangs"
      "(\<lambda>s. Inl (Invalid_argument ''stod'') :: exn + unit)"
      "(\<lambda>j. Inr ''text of the document'')"
      "(\<lambda>path. True)" "\<lparr>files = Map.empty, cerr = []\<rparr>"] h
  have g: "main (\<lambda>cmd. Hangs) (\<lambda>s. Inl (Invalid_argument ''stod'') :: exn + unit) (\<lambda>j. Inr ''text of the document'') (\<lambda>path. True) [''dump'', ''test.db''] \<lparr>files = Map.empty, cerr = []\<rparr> = Inl Diverge"
    by simp
  from a b c d e f g show ?thesis by simp
qed

text \<open>
  The claim as the specification states it fails with exactly one argument when a
  record has more fields than its table has column names. A table with the one
  column \<^verbatim>\<open>a\<close> and the value \<^verbatim>\<open>x|y\<close> in it gives the row \<^verbatim>\<open>x|y\<close>, two fields against
  one column name: \<^verbatim>\<open>columns[1]\<close> is beyond the end of the vector, and \<^verbatim>\<open>main\<close> returns
  nothing.
\<close>

theorem main_exit_status_counterexample:
  "length [''dump'', ''t.db''] = (2 :: nat)
   \<and> getTableColumns
        (\<lambda>cmd.
           if cmd = ''sqlite3 '' @ Database ''t.db'' @ '' .tables'' then Output ''t\<newline>''
           else if cmd = ''sqlite3 '' @ Database ''t.db'' @ '' '' @ table_info_query ''t''
           then Output ''0|a|TEXT|0||0\<newline>''
           else if cmd = ''sqlite3 '' @ Database ''t.db'' @ '' '' @ select_query ''t''
           then Output ''x|y\<newline>''
           else Output [])
        (Database ''t.db'') ''t'' = Inr [''a'']
   \<and> getTableRecords
        (\<lambda>cmd.
           if cmd = ''sqlite3 '' @ Database ''t.db'' @ '' .tables'' then Output ''t\<newline>''
           else if cmd = ''sqlite3 '' @ Database ''t.db'' @ '' '' @ table_info_query ''t''
           then Output ''0|a|TEXT|0||0\<newline>''
           else if cmd = ''sqlite3 '' @ Database ''t.db'' @ '' '' @ select_query ''t''
           then Output ''x|y\<newline>''
           else Output [])
        (Database ''t.db'') ''t'' = Inr [[''x'', ''y'']]
   \<and> main
        (\<lambda>cmd.
           if cmd = ''sqlite3 '' @ Database ''t.db'' @ '' .tables'' then Output ''t\<newline>''
           else if cmd = ''sqlite3 '' @ Database ''t.db'' @ '' '' @ table_info_query ''t''
           then Output ''0|a|TEXT|0||0\<newline>''
           else if cmd = ''sqlite3 '' @ Database ''t.db'' @ '' '' @ select_query ''t''
           then Output ''x|y\<newline>''
           else Output [])
        (\<lambda>s. Inl (Invalid_argument ''stod'') :: exn + unit) (\<lambda>j. Inr ''text of the document'') (\<lambda>path. True)
        [''dump'', ''t.db''] \<lparr>files = Map.empty, cerr = []\<rparr>
      = Inl Undefined"
proof -
  have c: "getTableColumns
        (\<lambda>cmd.
           if cmd = ''sqlite3 '' @ Database ''t.db'' @ '' .tables'' then Output ''t\<newline>''
           else if cmd = ''sqlite3 '' @ Database ''t.db'' @ '' '' @ table_info_query ''t''
           then Output ''0|a|TEXT|0||0\<newline>''
           else if cmd = ''sqlite3 '' @ Database ''t.db'' @ '' '' @ select_query ''t''
           then Output ''x|y\<newline>''
           else Output [])
        (Database ''t.db'') ''t'' = Inr [''a'']"
    by code_simp
  have r: "getTableRecords
        (\<lambda>cmd.
           if cmd = ''sqlite3 '' @ Database ''t.db'' @ '' .tables'' then Output ''t\<newline>''
           else if cmd = ''sqlite3 '' @ Database ''t.db'' @ '' '' @ table_info_query ''t''
           then Output ''0|a|TEXT|0||0\<newline>''
           else if cmd = ''sqlite3 '' @ Database ''t.db'' @ '' '' @ select_query ''t''
           then Output ''x|y\<newline>''
           else Output [])
        (Database ''t.db'') ''t'' = Inr [[''x'', ''y'']]"
    by code_simp
  have d: "document
        (\<lambda>cmd.
           if cmd = ''sqlite3 '' @ Database ''t.db'' @ '' .tables'' then Output ''t\<newline>''
           else if cmd = ''sqlite3 '' @ Database ''t.db'' @ '' '' @ table_info_query ''t''
           then Output ''0|a|TEXT|0||0\<newline>''
           else if cmd = ''sqlite3 '' @ Database ''t.db'' @ '' '' @ select_query ''t''
           then Output ''x|y\<newline>''
           else Output [])
        (\<lambda>s. Inl (Invalid_argument ''stod'') :: exn + unit) (Database ''t.db'') = Inl Undefined"
    by code_simp
  have "main engine (\<lambda>s. Inl (Invalid_argument ''stod'') :: exn + unit) (\<lambda>j. Inr ''text of the document'') (\<lambda>path. True) [''dump'', ''t.db''] \<lparr>files = Map.empty, cerr = []\<rparr> = Inl Undefined"
    if "document engine (\<lambda>s. Inl (Invalid_argument ''stod'') :: exn + unit) (Database ''t.db'') = Inl Undefined" for engine
    using that by (simp add: main_def jsonPath_eq call_def Let_def serialize_def)
  from this [OF d]
  have m: "main
        (\<lambda>cmd.
           if cmd = ''sqlite3 '' @ Database ''t.db'' @ '' .tables'' then Output ''t\<newline>''
           else if cmd = ''sqlite3 '' @ Database ''t.db'' @ '' '' @ table_info_query ''t''
           then Output ''0|a|TEXT|0||0\<newline>''
           else if cmd = ''sqlite3 '' @ Database ''t.db'' @ '' '' @ select_query ''t''
           then Output ''x|y\<newline>''
           else Output [])
        (\<lambda>s. Inl (Invalid_argument ''stod'') :: exn + unit) (\<lambda>j. Inr ''text of the document'') (\<lambda>path. True)
        [''dump'', ''t.db''] \<lparr>files = Map.empty, cerr = []\<rparr>
      = Inl Undefined" .
  from c r m show ?thesis by simp
qed

end
